theory Spec2Isabelle
  imports Complex_Main
begin

section \<open>JavaScript values used by the services\<close>

text \<open>
  A JavaScript \<open>Date\<close> is a time value in milliseconds since the epoch, or the
  Invalid Date (time value NaN).  JavaScript numbers are modelled as reals, so
  the arithmetic below is exact; the concrete values checked (a score of 48.81
  before rounding, a mean of 12.0 against the threshold 11.5, a slope of -0.2,
  impact levels that are multiples of 10) stay far away from every rounding
  boundary of the double arithmetic.  Strings are lists of 8-bit characters;
  \<open>toLowerCase\<close> is modelled on the ASCII letters.
\<close>

datatype jsdate = Date int | InvalidDate

datatype jsexn = Thrown string

text \<open>
  The values a timestamp field can hold: the declared type is
  \<open>string | Date | undefined | null\<close>; \<open>OtherValue\<close> stands for anything else the
  log source may deliver (a number, a timestamp object of the document store).
\<close>

datatype tsinput = Undefined | Null | DateObj jsdate | Str string | OtherValue

fun isValid :: "jsdate \<Rightarrow> bool" where
  "isValid (Date t) = True"
| "isValid InvalidDate = False"

text \<open>\<open>a > b\<close> on two \<open>Date\<close> objects compares the time values; with NaN it is false.\<close>

fun dateGt :: "jsdate \<Rightarrow> jsdate \<Rightarrow> bool" where
  "dateGt (Date a) (Date b) = (a > b)"
| "dateGt _ _ = False"

text \<open>\<open>Math.round\<close>: the nearest integer, halves rounded towards plus infinity.\<close>

definition Math_round :: "real \<Rightarrow> real" where
  "Math_round x = of_int \<lfloor>x + 1 / 2\<rfloor>"

text \<open>\<open>xs.slice(-n)\<close>: the last \<open>n\<close> elements, the whole array when it is shorter.\<close>

definition slice_last :: "nat \<Rightarrow> 'a list \<Rightarrow> 'a list" where
  "slice_last n xs = drop (length xs - n) xs"

text \<open>\<open>xs.reduce((a, b) => a + b, 0)\<close>\<close>

definition reduce_sum :: "real list \<Rightarrow> real" where
  "reduce_sum xs = foldl (\<lambda>a b. a + b) 0 xs"

definition toLowerChar :: "char \<Rightarrow> char" where
  "toLowerChar c =
     (case map_of (zip ''ABCDEFGHIJKLMNOPQRSTUVWXYZ'' ''abcdefghijklmnopqrstuvwxyz'') c of
        Some d \<Rightarrow> d
      | None \<Rightarrow> c)"

definition toLowerCase :: "string \<Rightarrow> string" where
  "toLowerCase s = map toLowerChar s"

fun startsWith :: "string \<Rightarrow> string \<Rightarrow> bool" where
  "startsWith s [] = True"
| "startsWith [] (p # ps) = False"
| "startsWith (c # cs) (p # ps) = (c = p \<and> startsWith cs ps)"

text \<open>\<open>s.includes(p)\<close>: \<open>p\<close> occurs in \<open>s\<close> as a contiguous substring.\<close>

fun includes_str :: "string \<Rightarrow> string \<Rightarrow> bool" where
  "includes_str [] p = (p = [])"
| "includes_str (c # cs) p = (startsWith (c # cs) p \<or> includes_str cs p)"

section \<open>The date library and \<open>parseTimestamp\<close> (lib/dateUtils)\<close>

text \<open>
  The functions of date-fns, the \<open>Date\<close> constructor and the number
  formatting of the host are outside the repository; they are parameters of the
  model.  A parser either throws or returns a date, which may be the Invalid
  Date.  \<open>subHours\<close> subtracts an exact number of milliseconds; \<open>subDays\<close> moves
  the calendar day in local time and stays a parameter.
\<close>

record hostlib =
  parseISO :: "string \<Rightarrow> jsexn + jsdate"
  parse :: "string \<Rightarrow> string \<Rightarrow> jsdate \<Rightarrow> jsexn + jsdate"
  newDate :: "string \<Rightarrow> jsexn + jsdate"
  format :: "jsdate \<Rightarrow> string \<Rightarrow> string"
  subDays :: "jsdate \<Rightarrow> int \<Rightarrow> jsdate"
  toFixed :: "real \<Rightarrow> nat \<Rightarrow> string"
  numToString :: "real \<Rightarrow> string"

fun subHours :: "jsdate \<Rightarrow> int \<Rightarrow> jsdate" where
  "subHours (Date t) n = Date (t - n * 3600000)"
| "subHours InvalidDate n = InvalidDate"

text \<open>
  One parsing strategy of \<open>parseTimestamp\<close>:
  \<^verbatim>\<open>try { const d = f(timestamp); if (isValid(d)) return d } catch (error) { }\<close>
  It returns from the function with a valid date (\<open>Some\<close>) or falls through to
  the next strategy (\<open>None\<close>), also when the library call throws.
\<close>

definition strategy :: "jsexn + jsdate \<Rightarrow> jsdate option" where
  "strategy r = (case r of Inl e \<Rightarrow> None | Inr d \<Rightarrow> if isValid d then Some d else None)"

text \<open>
  \<open>parseTimestamp L now ts\<close>, where \<open>now\<close> is the clock reading that \<open>new Date()\<close>
  gives.  The result is \<open>Inl e\<close> when the call ends with the exception \<open>e\<close>.
  \<open>!timestamp\<close> holds for undefined, null and the empty string.
\<close>

fun parseTimestamp :: "hostlib \<Rightarrow> int \<Rightarrow> tsinput \<Rightarrow> jsexn + jsdate" where
  "parseTimestamp L now Undefined = Inr (Date now)"
| "parseTimestamp L now Null = Inr (Date now)"
| "parseTimestamp L now OtherValue = Inr (Date now)"
| "parseTimestamp L now (DateObj d) = Inr (if isValid d then d else Date now)"
| "parseTimestamp L now (Str s) =
     (if s = [] then Inr (Date now)
      else case strategy (parseISO L s) of Some d \<Rightarrow> Inr d | None \<Rightarrow>
        (case strategy (parse L s ''dd/MM/yyyy HH:mm:ss.SSS'' (Date now)) of Some d \<Rightarrow> Inr d | None \<Rightarrow>
          (case strategy (parse L s ''dd/MM/yyyy HH:mm:ss'' (Date now)) of Some d \<Rightarrow> Inr d | None \<Rightarrow>
            (case strategy (newDate L s) of Some d \<Rightarrow> Inr d | None \<Rightarrow> Inr (Date now)))))"

text \<open>
  The callers use the returned date without a handler of their own.  By
  \<open>parseTimestamp_returns\<close> below the \<open>Inl\<close> branch is never taken.
\<close>

definition logDate :: "hostlib \<Rightarrow> int \<Rightarrow> tsinput \<Rightarrow> jsdate" where
  "logDate L now ts = (case parseTimestamp L now ts of Inr d \<Rightarrow> d | Inl e \<Rightarrow> InvalidDate)"

text \<open>
  A date library in which every string parser rejects its input (it returns the
  Invalid Date); used to run the services on inputs whose timestamps are dates.
\<close>

definition rejectingLib :: hostlib where
  "rejectingLib = \<lparr> parseISO = (\<lambda>s. Inr InvalidDate),
                    parse = (\<lambda>s f r. Inl (Thrown ''RangeError'')),
                    newDate = (\<lambda>s. Inr InvalidDate),
                    format = (\<lambda>d f. case d of Date t \<Rightarrow> replicate (nat (t div 3600000)) CHR ''h'' | InvalidDate \<Rightarrow> []),
                    subDays = (\<lambda>d n. case d of Date t \<Rightarrow> Date (t - n * 86400000) | InvalidDate \<Rightarrow> InvalidDate),
                    toFixed = (\<lambda>x n. ''#''),
                    numToString = (\<lambda>x. ''#'') \<rparr>"

section \<open>Log records (types/logs)\<close>

text \<open>
  Modelled from the spec: the declarations of \<open>IgnitionLog\<close> and \<open>ExceptionLog\<close>
  (types/logs) are not among the sources.  The records carry the fields the
  services read: the device identifier, the timestamp, the optional voltage and
  location of an ignition event, the optional category text \<open>main\<close> and detail
  text of an exception event.
\<close>

record LogBase =
  logId :: string
  deviceImei :: string
  timestamp :: tsinput

record IgnitionLog = LogBase +
  voltage :: "real option"
  location :: "(real \<times> real) option"
  address :: string

record ExceptionLog = LogBase +
  main :: "string option"
  details :: "string option"

text \<open>\<open>log.voltage\<close> as a condition: undefined and 0 are falsy.\<close>

definition truthyVoltage :: "IgnitionLog \<Rightarrow> bool" where
  "truthyVoltage l = (case voltage l of None \<Rightarrow> False | Some v \<Rightarrow> v \<noteq> 0)"

text \<open>\<open>log.voltage!\<close>, read only on logs that passed the filter on \<open>log.voltage\<close>.\<close>

definition voltageOf :: "IgnitionLog \<Rightarrow> real" where
  "voltageOf l = (case voltage l of None \<Rightarrow> 0 | Some v \<Rightarrow> v)"

text \<open>\<open>log.main?.toLowerCase().includes(p)\<close>: falsy when \<open>main\<close> is missing.\<close>

definition mainIncludes :: "ExceptionLog \<Rightarrow> string \<Rightarrow> bool" where
  "mainIncludes l p = (case main l of None \<Rightarrow> False | Some m \<Rightarrow> includes_str (toLowerCase m) p)"

text \<open>\<open>getSafeTimestamp\<close>: the time value of the parsed date.\<close>

definition getSafeTimestamp :: "hostlib \<Rightarrow> int \<Rightarrow> tsinput \<Rightarrow> int" where
  "getSafeTimestamp L now ts = (case logDate L now ts of Date t \<Rightarrow> t | InvalidDate \<Rightarrow> 0)"

section \<open>AnalyticsService\<close>

subsection \<open>calculateDeviceHealthScore\<close>

record HealthFactors =
  connectivity :: real
  batteryHealth :: real
  errorRate :: real
  uptime :: real

record DeviceHealthScore =
  hs_imei :: string
  score :: real
  factors :: HealthFactors
  lastCalculated :: jsdate

text \<open>The logs of the last hour: \<open>recentLogs\<close> of \<open>calculateDeviceHealthScore\<close>.\<close>

definition recentLogs :: "hostlib \<Rightarrow> int \<Rightarrow> IgnitionLog list \<Rightarrow> ExceptionLog list \<Rightarrow> tsinput list" where
  "recentLogs L now deviceIgnitions deviceExceptions =
     filter (\<lambda>ts. dateGt (logDate L now ts) (subHours (Date now) 1))
       (map timestamp deviceIgnitions @ map timestamp deviceExceptions)"

text \<open>The four factors, before the rounding of the report.\<close>

definition healthFactors :: "hostlib \<Rightarrow> int \<Rightarrow> string \<Rightarrow> IgnitionLog list \<Rightarrow> ExceptionLog list \<Rightarrow> HealthFactors" where
  "healthFactors L now imei ignitionLogs exceptionLogs =
     (let deviceIgnitions = filter (\<lambda>l. deviceImei l = imei) ignitionLogs;
          deviceExceptions = filter (\<lambda>l. deviceImei l = imei) exceptionLogs;
          recent = recentLogs L now deviceIgnitions deviceExceptions;
          connectivity = min 100 (real (length recent) * 10);
          voltageReadings = slice_last 10 (map voltageOf (filter truthyVoltage deviceIgnitions));
          avgVoltage = (if length voltageReadings > 0
                        then reduce_sum voltageReadings / real (length voltageReadings)
                        else 12.0);
          batteryHealth = max 0 (min 100 ((avgVoltage / 12.6) * 100));
          totalLogs = length deviceIgnitions + length deviceExceptions;
          errorRate = (if totalLogs > 0
                       then max 0 (100 - (real (length deviceExceptions) / real totalLogs) * 100)
                       else 100);
          dayAgo = subDays L (Date now) 1;
          recentActivity = filter (\<lambda>ts. dateGt (logDate L now ts) dayAgo) recent;
          uptime = min 100 (real (length recentActivity) * 5)
      in \<lparr> connectivity = connectivity, batteryHealth = batteryHealth,
           errorRate = errorRate, uptime = uptime \<rparr>)"

definition calculateDeviceHealthScore ::
  "hostlib \<Rightarrow> int \<Rightarrow> string \<Rightarrow> IgnitionLog list \<Rightarrow> ExceptionLog list \<Rightarrow> DeviceHealthScore" where
  "calculateDeviceHealthScore L now imei ignitionLogs exceptionLogs =
     (let f = healthFactors L now imei ignitionLogs exceptionLogs;
          score = Math_round ((connectivity f * 0.3) + (batteryHealth f * 0.25) +
                              (errorRate f * 0.25) + (uptime f * 0.2))
      in \<lparr> hs_imei = imei, score = score,
           factors = \<lparr> connectivity = Math_round (connectivity f),
                       batteryHealth = Math_round (batteryHealth f),
                       errorRate = Math_round (errorRate f),
                       uptime = Math_round (uptime f) \<rparr>,
           lastCalculated = Date now \<rparr>)"

subsection \<open>calculateDevicePerformanceMetrics\<close>

record DevicePerformanceMetrics =
  pm_imei :: string
  pm_uptime :: real
  mtbf :: real
  totalExceptions :: nat
  criticalExceptions :: nat
  lastSeen :: jsdate
  averageVoltage :: real
  locationAccuracy :: real

text \<open>The filter that selects the failures among a device's exceptions.\<close>

definition isFailure :: "ExceptionLog \<Rightarrow> bool" where
  "isFailure l = (mainIncludes l ''server down'' \<or> mainIncludes l ''connection timeout'' \<or>
                  mainIncludes l ''error'')"

definition calculateDevicePerformanceMetrics ::
  "hostlib \<Rightarrow> int \<Rightarrow> string \<Rightarrow> IgnitionLog list \<Rightarrow> ExceptionLog list \<Rightarrow> DevicePerformanceMetrics" where
  "calculateDevicePerformanceMetrics L now imei ignitionLogs exceptionLogs =
     (let deviceIgnitions = filter (\<lambda>l. deviceImei l = imei) ignitionLogs;
          deviceExceptions = filter (\<lambda>l. deviceImei l = imei) exceptionLogs;
          totalHours = 24 * 7;
          both = map timestamp deviceIgnitions @ map timestamp deviceExceptions;
          activeHours = length (remdups
             (map (\<lambda>ts. format L (logDate L now ts) ''yyyy-MM-dd-HH'')
                (filter (\<lambda>ts. dateGt (logDate L now ts) (subDays L (Date now) 7)) both)));
          uptime = (real activeHours / totalHours) * 100;
          failures = filter isFailure deviceExceptions;
          mtbf = (if length failures > 1 then totalHours / real (length failures) else totalHours);
          allLogs = sort_key (\<lambda>ts. - getSafeTimestamp L now ts) both;
          lastSeen = (case allLogs of [] \<Rightarrow> Date now | ts # _ \<Rightarrow> logDate L now ts);
          voltageReadings = map voltageOf (filter truthyVoltage deviceIgnitions);
          averageVoltage = (if length voltageReadings > 0
                            then reduce_sum voltageReadings / real (length voltageReadings)
                            else 0)
      in \<lparr> pm_imei = imei,
           pm_uptime = Math_round (uptime * 100) / 100,
           mtbf = Math_round (mtbf * 100) / 100,
           totalExceptions = length deviceExceptions,
           criticalExceptions = length failures,
           lastSeen = lastSeen,
           averageVoltage = Math_round (averageVoltage * 100) / 100,
           locationAccuracy = 95 \<rparr>)"

subsection \<open>Grouping the logs by device\<close>

text \<open>
  \<open>deviceGroups\<close> is a \<open>Map\<close> from the device identifier to the two arrays of its
  logs; \<open>forEach\<close> visits its entries in the order in which the keys were first
  inserted, so the map is an association list in insertion order.
\<close>

type_synonym deviceGroups = "(string \<times> (IgnitionLog list \<times> ExceptionLog list)) list"

text \<open>\<open>if (!deviceGroups.has(k)) deviceGroups.set(k, { ignitions: [], exceptions: [] })\<close>\<close>

definition ensureGroup :: "string \<Rightarrow> deviceGroups \<Rightarrow> deviceGroups" where
  "ensureGroup k g = (if map_of g k = None then g @ [(k, ([], []))] else g)"

definition pushIgnition :: "IgnitionLog \<Rightarrow> deviceGroups \<Rightarrow> deviceGroups" where
  "pushIgnition l g =
     map (\<lambda>(k, (is, es)). if k = deviceImei l then (k, (is @ [l], es)) else (k, (is, es)))
       (ensureGroup (deviceImei l) g)"

definition pushException :: "ExceptionLog \<Rightarrow> deviceGroups \<Rightarrow> deviceGroups" where
  "pushException l g =
     map (\<lambda>(k, (is, es)). if k = deviceImei l then (k, (is, es @ [l])) else (k, (is, es)))
       (ensureGroup (deviceImei l) g)"

definition groupByDevice :: "IgnitionLog list \<Rightarrow> ExceptionLog list \<Rightarrow> deviceGroups" where
  "groupByDevice ignitionLogs exceptionLogs =
     foldl (\<lambda>g l. pushException l g) (foldl (\<lambda>g l. pushIgnition l g) [] ignitionLogs) exceptionLogs"

subsection \<open>detectAnomalies\<close>

datatype anomalyType = voltage_drop | frequent_restarts | connection_loss | battery_degradation

datatype severity = low | medium | high | critical

record Anomaly =
  an_id :: string
  an_imei :: string
  an_type :: anomalyType
  an_severity :: severity
  an_description :: string
  detectedAt :: jsdate
  an_value :: real
  threshold :: real
  an_recommendation :: string

text \<open>The voltage-drop check of one device: the anomalies it pushes.\<close>

definition voltageDropAnomalies :: "hostlib \<Rightarrow> int \<Rightarrow> string \<Rightarrow> IgnitionLog list \<Rightarrow> Anomaly list" where
  "voltageDropAnomalies L now imei ignitions =
     (let recentVoltages = map voltageOf (slice_last 5 (filter truthyVoltage ignitions))
      in if length recentVoltages \<ge> 3
         then (let avgVoltage = reduce_sum recentVoltages / real (length recentVoltages)
               in if avgVoltage < 11.5
                  then [\<lparr> an_id = ''voltage_'' @ imei @ ''_'' @ numToString L (real_of_int now),
                          an_imei = imei,
                          an_type = voltage_drop,
                          an_severity = (if avgVoltage < 11.0 then critical else high),
                          an_description = ''Low voltage detected: '' @ toFixed L avgVoltage 2 @ ''V'',
                          detectedAt = Date now,
                          an_value = avgVoltage,
                          threshold = 11.5,
                          an_recommendation = ''Check battery and charging system'' \<rparr>]
                  else [])
         else [])"

text \<open>The frequent-restarts check of one device.\<close>

definition restartAnomalies :: "hostlib \<Rightarrow> int \<Rightarrow> string \<Rightarrow> ExceptionLog list \<Rightarrow> Anomaly list" where
  "restartAnomalies L now imei exceptions =
     (let recentExceptions =
            filter (\<lambda>l. dateGt (logDate L now (timestamp l)) (subHours (Date now) 1)) exceptions
      in if length recentExceptions > 5
         then [\<lparr> an_id = ''restarts_'' @ imei @ ''_'' @ numToString L (real_of_int now),
                 an_imei = imei,
                 an_type = frequent_restarts,
                 an_severity = high,
                 an_description = numToString L (real (length recentExceptions)) @
                                  '' exceptions in the last hour'',
                 detectedAt = Date now,
                 an_value = real (length recentExceptions),
                 threshold = 5,
                 an_recommendation = ''Investigate device stability and network connectivity'' \<rparr>]
         else [])"

definition detectAnomalies :: "hostlib \<Rightarrow> int \<Rightarrow> IgnitionLog list \<Rightarrow> ExceptionLog list \<Rightarrow> Anomaly list" where
  "detectAnomalies L now ignitionLogs exceptionLogs =
     concat (map (\<lambda>(imei, (ignitions, exceptions)).
                    voltageDropAnomalies L now imei ignitions @ restartAnomalies L now imei exceptions)
                 (groupByDevice ignitionLogs exceptionLogs))"

subsection \<open>generatePredictiveAlerts and calculateVoltageTrend\<close>

datatype alertKind = battery_failure | device_failure | connection_degradation

record PredictiveAlert =
  pa_id :: string
  pa_imei :: string
  pa_type :: alertKind
  probability :: real
  estimatedTimeToFailure :: real
  pa_description :: string
  pa_recommendation :: string
  createdAt :: jsdate

text \<open>
  A reading is the pair of the voltage and the time value of the parsed timestamp.
  The sums of \<open>calculateVoltageTrend\<close> run over the readings with their indices.
\<close>

definition calculateVoltageTrend :: "(real \<times> int) list \<Rightarrow> real" where
  "calculateVoltageTrend readings =
     (if length readings < 2 then 0
      else (let n = real (length readings);
                ixs = enumerate 0 readings;
                sumX = foldl (\<lambda>sum (i, r). sum + real i) 0 ixs;
                sumY = foldl (\<lambda>sum r. sum + fst r) 0 readings;
                sumXY = foldl (\<lambda>sum (i, r). sum + (real i * fst r)) 0 ixs;
                sumXX = foldl (\<lambda>sum (i, r). sum + (real i * real i)) 0 ixs
            in (n * sumXY - sumX * sumY) / (n * sumXX - sumX * sumX)))"

definition batteryAlerts :: "hostlib \<Rightarrow> int \<Rightarrow> string \<Rightarrow> IgnitionLog list \<Rightarrow> PredictiveAlert list" where
  "batteryAlerts L now imei ignitions =
     (let voltageReadings =
            sort_key snd (map (\<lambda>l. (voltageOf l, getSafeTimestamp L now (timestamp l)))
                            (slice_last 10 (filter truthyVoltage ignitions)))
      in if length voltageReadings \<ge> 5
         then (let trend = calculateVoltageTrend voltageReadings
               in if trend < - 0.1
                  then (let currentVoltage = fst (last voltageReadings);
                            estimatedFailureTime = (currentVoltage - 10.5) / \<bar>trend\<bar>
                        in if estimatedFailureTime < 72
                           then [\<lparr> pa_id = ''battery_'' @ imei @ ''_'' @ numToString L (real_of_int now),
                                   pa_imei = imei,
                                   pa_type = battery_failure,
                                   probability = min 95 (max 20 (100 - (estimatedFailureTime / 72) * 100)),
                                   estimatedTimeToFailure = max 1 estimatedFailureTime,
                                   pa_description = ''Battery voltage declining at '' @
                                                    toFixed L \<bar>trend\<bar> 3 @ ''V/hour'',
                                   pa_recommendation = ''Schedule battery replacement within 48 hours'',
                                   createdAt = Date now \<rparr>]
                           else [])
                  else [])
         else [])"

definition connectionAlerts :: "hostlib \<Rightarrow> int \<Rightarrow> string \<Rightarrow> ExceptionLog list \<Rightarrow> PredictiveAlert list" where
  "connectionAlerts L now imei exceptions =
     (let recentExceptions =
            filter (\<lambda>l. mainIncludes l ''connection'' \<or> mainIncludes l ''timeout'' \<or>
                         mainIncludes l ''server'')
              (filter (\<lambda>l. dateGt (logDate L now (timestamp l)) (subDays L (Date now) 3)) exceptions)
      in if length recentExceptions > 10
         then (let probability = min 90 ((real (length recentExceptions) / 20) * 100)
               in [\<lparr> pa_id = ''connection_'' @ imei @ ''_'' @ numToString L (real_of_int now),
                     pa_imei = imei,
                     pa_type = connection_degradation,
                     probability = probability,
                     estimatedTimeToFailure = 24,
                     pa_description = numToString L (real (length recentExceptions)) @
                                      '' connection issues in last 3 days'',
                     pa_recommendation = ''Check network connectivity and signal strength'',
                     createdAt = Date now \<rparr>])
         else [])"

definition generatePredictiveAlerts ::
  "hostlib \<Rightarrow> int \<Rightarrow> IgnitionLog list \<Rightarrow> ExceptionLog list \<Rightarrow> PredictiveAlert list" where
  "generatePredictiveAlerts L now ignitionLogs exceptionLogs =
     concat (map (\<lambda>(imei, (ignitions, exceptions)).
                    batteryAlerts L now imei ignitions @ connectionAlerts L now imei exceptions)
                 (groupByDevice ignitionLogs exceptionLogs))"

text \<open>
  Reading a voltage of exactly 0 as an absent reading: two lists of ignition
  logs with the same image under \<open>zeroAsAbsent\<close> differ only in that some absent
  voltages are replaced by 0 or some voltages 0 by absent ones.
\<close>

definition zeroAsAbsent :: "IgnitionLog \<Rightarrow> IgnitionLog" where
  "zeroAsAbsent l = (if voltage l = Some 0 then l\<lparr> voltage := None \<rparr> else l)"

text \<open>
  What the grouping loop maintains: each entry holds exactly the logs of its
  device, in order, and every device that has a log has an entry.
\<close>

definition groupsHold :: "deviceGroups \<Rightarrow> IgnitionLog list \<Rightarrow> ExceptionLog list \<Rightarrow> bool" where
  "groupsHold g ignitionLogs exceptionLogs =
     ((\<forall>(k, is, es) \<in> set g. is = filter (\<lambda>l. deviceImei l = k) ignitionLogs \<and>
                               es = filter (\<lambda>l. deviceImei l = k) exceptionLogs) \<and>
      deviceImei ` set ignitionLogs \<union> deviceImei ` set exceptionLogs \<subseteq> fst ` set g)"

text \<open>The groups with every ignition log read through \<open>zeroAsAbsent\<close>.\<close>

definition groupsZeroAsAbsent :: "deviceGroups \<Rightarrow> deviceGroups" where
  "groupsZeroAsAbsent g = map (\<lambda>(k, (is, es)). (k, (map zeroAsAbsent is, es))) g"

section \<open>NetworkIncidentService\<close>

datatype eventType = outage | recovery | timeout

record NetworkEvent =
  ev_id :: string
  ev_deviceImei :: string
  ev_timestamp :: int
  eventType :: eventType
  ev_details :: string
  incidentId :: "string option"

datatype incidentStatus = ongoing | resolved

datatype recoveryPattern = simultaneous | gradual | partial

record NetworkIncident =
  inc_id :: string
  startTime :: int
  endTime :: "int option"
  duration :: "real option"
  status :: incidentStatus
  affectedDevices :: "string list"
  recoveredDevices :: "string list"
  inc_severity :: severity
  impactLevel :: real
  recoveryPattern :: recoveryPattern

text \<open>
  The timestamp of an event is the date that \<open>parseTimestamp\<close> returned, which is
  always valid; the records hold its time value.
\<close>

subsection \<open>extractNetworkEvents\<close>

text \<open>\<open>log.details?.toLowerCase() || ''\<close> and \<open>log.main?.toLowerCase() || ''\<close>\<close>

definition lowerOrEmpty :: "string option \<Rightarrow> string" where
  "lowerOrEmpty s = (case s of None \<Rightarrow> [] | Some t \<Rightarrow> toLowerCase t)"

definition classifyEvent :: "ExceptionLog \<Rightarrow> eventType option" where
  "classifyEvent l =
     (let d = lowerOrEmpty (details l); m = lowerOrEmpty (main l)
      in if includes_str m ''server down'' \<or> includes_str d ''server unavailable'' \<or>
            includes_str d ''connection failed'' \<or> includes_str d ''network error''
         then Some outage
         else if includes_str m ''server up'' \<or> includes_str m ''connection restored'' \<or>
                 includes_str m ''network restored'' \<or> includes_str d ''server available'' \<or>
                 includes_str d ''connection established'' \<or> includes_str d ''back online'' \<or>
                 includes_str d ''connectivity restored''
         then Some recovery
         else if includes_str m ''timeout'' \<or> includes_str d ''timeout'' \<or>
                 includes_str m ''retry'' \<or> includes_str d ''attempting reconnection''
         then Some timeout
         else None)"

text \<open>\<open>log.details || log.main || 'Network event detected'\<close>: the first non-empty text.\<close>

definition eventDetails :: "ExceptionLog \<Rightarrow> string" where
  "eventDetails l =
     (case details l of Some (c # cs) \<Rightarrow> c # cs
      | _ \<Rightarrow> (case main l of Some (c # cs) \<Rightarrow> c # cs | _ \<Rightarrow> ''Network event detected''))"

definition extractNetworkEvents :: "hostlib \<Rightarrow> int \<Rightarrow> ExceptionLog list \<Rightarrow> NetworkEvent list" where
  "extractNetworkEvents L now exceptionLogs =
     sort_key ev_timestamp
       (concat (map (\<lambda>l. case classifyEvent l of
                            None \<Rightarrow> []
                          | Some ty \<Rightarrow> [\<lparr> ev_id = logId l, ev_deviceImei = deviceImei l,
                                          ev_timestamp = getSafeTimestamp L now (timestamp l),
                                          eventType = ty, ev_details = eventDetails l,
                                          incidentId = None \<rparr>])
                    exceptionLogs))"

subsection \<open>groupEventsIntoIncidents\<close>

text \<open>
  The state of the pass over the events.  The incident objects live in the array
  \<open>incidents\<close>, which only grows; \<open>currentIncident\<close> is a reference to one of them,
  modelled as its index in the array, and \<open>incidents.find\<close> gives the index of the
  object it returns, so that a mutation through either reference is a list update
  at that index.  \<open>processed\<close> collects the events in order, with the incident
  identifier the pass wrote into them.  The identifier of the \<open>k\<close>-th incident
  created (clock reading and random suffix) is \<open>mkId k\<close>.
\<close>

record groupState =
  incidents :: "NetworkIncident list"
  deviceOutages :: "string \<rightharpoonup> int"
  currentIncident :: "nat option"
  processed :: "NetworkEvent list"

definition INCIDENT_WINDOW :: int where
  "INCIDENT_WINDOW = 5 * 60 * 1000"

definition getTotalDeviceCount :: real where
  "getTotalDeviceCount = 10"

fun findIndex :: "('a \<Rightarrow> bool) \<Rightarrow> 'a list \<Rightarrow> nat option" where
  "findIndex P [] = None"
| "findIndex P (x # xs) = (if P x then Some 0 else map_option Suc (findIndex P xs))"

definition determineRecoveryPattern :: "NetworkIncident \<Rightarrow> recoveryPattern" where
  "determineRecoveryPattern incident =
     (if length (recoveredDevices incident) = 0 then simultaneous
      else (let recoveryRate = real (length (recoveredDevices incident)) /
                               real (length (affectedDevices incident))
            in if recoveryRate = 1 then simultaneous
               else if recoveryRate > 0.8 then gradual
               else partial))"

definition startIncident :: "(nat \<Rightarrow> string) \<Rightarrow> groupState \<Rightarrow> NetworkEvent \<Rightarrow> groupState" where
  "startIncident mkId st event =
     (let new = \<lparr> inc_id = mkId (length (incidents st)),
                  startTime = ev_timestamp event,
                  endTime = None,
                  duration = None,
                  status = ongoing,
                  affectedDevices = [ev_deviceImei event],
                  recoveredDevices = [],
                  inc_severity = critical,
                  impactLevel = 0,
                  recoveryPattern = simultaneous \<rparr>
      in st\<lparr> incidents := incidents st @ [new],
             currentIncident := Some (length (incidents st)),
             processed := processed st @ [event\<lparr> incidentId := Some (inc_id new) \<rparr>] \<rparr>)"

definition onOutage :: "(nat \<Rightarrow> string) \<Rightarrow> groupState \<Rightarrow> NetworkEvent \<Rightarrow> groupState" where
  "onOutage mkId st0 event =
     (let st = st0\<lparr> deviceOutages := (deviceOutages st0)(ev_deviceImei event \<mapsto> ev_timestamp event) \<rparr>
      in case currentIncident st of
           None \<Rightarrow> startIncident mkId st event
         | Some i \<Rightarrow>
            (let cur = incidents st ! i
             in if ev_timestamp event - startTime cur > INCIDENT_WINDOW
                then startIncident mkId st event
                else (let cur' = (if ev_deviceImei event \<in> set (affectedDevices cur) then cur
                                  else cur\<lparr> affectedDevices := affectedDevices cur @ [ev_deviceImei event] \<rparr>)
                      in st\<lparr> incidents := (incidents st)[i := cur'],
                             processed := processed st @ [event\<lparr> incidentId := Some (inc_id cur') \<rparr>] \<rparr>)))"

definition recoverIn :: "NetworkIncident \<Rightarrow> NetworkEvent \<Rightarrow> NetworkIncident" where
  "recoverIn incident event =
     (let i1 = (if ev_deviceImei event \<in> set (recoveredDevices incident) then incident
                else incident\<lparr> recoveredDevices := recoveredDevices incident @ [ev_deviceImei event] \<rparr>);
          i2 = (if length (recoveredDevices i1) = length (affectedDevices i1)
                then i1\<lparr> status := resolved,
                         endTime := Some (ev_timestamp event),
                         duration := Some (Math_round
                            (real_of_int (ev_timestamp event - startTime i1) / (1000 * 60))) \<rparr>
                else i1)
      in i2\<lparr> recoveryPattern := determineRecoveryPattern i2 \<rparr>)"

definition onRecovery :: "groupState \<Rightarrow> NetworkEvent \<Rightarrow> groupState" where
  "onRecovery st event =
     (case deviceOutages st (ev_deviceImei event) of
        None \<Rightarrow> st\<lparr> processed := processed st @ [event] \<rparr>
      | Some outageTime \<Rightarrow>
         (let st1 = (case findIndex (\<lambda>inc. ev_deviceImei event \<in> set (affectedDevices inc) \<and>
                                           status inc = ongoing) (incidents st) of
                       None \<Rightarrow> st\<lparr> processed := processed st @ [event] \<rparr>
                     | Some i \<Rightarrow>
                        (let incident = recoverIn (incidents st ! i) event
                         in st\<lparr> incidents := (incidents st)[i := incident],
                                processed := processed st @
                                             [event\<lparr> incidentId := Some (inc_id incident) \<rparr>] \<rparr>))
          in st1\<lparr> deviceOutages := (deviceOutages st1)(ev_deviceImei event := None) \<rparr>))"

definition onEvent :: "(nat \<Rightarrow> string) \<Rightarrow> groupState \<Rightarrow> NetworkEvent \<Rightarrow> groupState" where
  "onEvent mkId st event =
     (if eventType event = outage then onOutage mkId st event
      else if eventType event = recovery then onRecovery st event
      else st\<lparr> processed := processed st @ [event] \<rparr>)"

definition initialGroupState :: groupState where
  "initialGroupState = \<lparr> incidents = [], deviceOutages = Map.empty,
                         currentIncident = None, processed = [] \<rparr>"

text \<open>The state of the pass after the events \<open>events\<close> have been visited.\<close>

definition groupingPass :: "(nat \<Rightarrow> string) \<Rightarrow> NetworkEvent list \<Rightarrow> groupState" where
  "groupingPass mkId events = foldl (onEvent mkId) initialGroupState events"

text \<open>The second loop: impact level and severity of one incident.\<close>

definition finalizeIncident :: "NetworkIncident \<Rightarrow> NetworkIncident" where
  "finalizeIncident incident =
     (let impact = Math_round ((real (length (affectedDevices incident)) / getTotalDeviceCount) * 100);
          longer = (\<lambda>m. case duration incident of None \<Rightarrow> False | Some d \<Rightarrow> d \<noteq> 0 \<and> d > m)
      in incident\<lparr> impactLevel := impact,
                   inc_severity := (if impact > 50 \<or> longer 30 then critical
                                    else if impact > 20 \<or> longer 10 then high
                                    else medium) \<rparr>)"

definition groupEventsIntoIncidents :: "(nat \<Rightarrow> string) \<Rightarrow> NetworkEvent list \<Rightarrow> NetworkIncident list" where
  "groupEventsIntoIncidents mkId events = map finalizeIncident (incidents (groupingPass mkId events))"

text \<open>
  \<open>analyzeNetworkEvents\<close>: the incidents and the events of its result.  The third
  component, the metrics, is computed from the incidents by
  \<open>calculateRecoveryMetrics\<close>, which only reads them.
\<close>

definition analyzeNetworkEvents ::
  "hostlib \<Rightarrow> int \<Rightarrow> (nat \<Rightarrow> string) \<Rightarrow> ExceptionLog list \<Rightarrow> NetworkIncident list \<times> NetworkEvent list" where
  "analyzeNetworkEvents L now mkId exceptionLogs =
     (let networkEvents = extractNetworkEvents L now exceptionLogs
      in (groupEventsIntoIncidents mkId networkEvents,
          processed (groupingPass mkId networkEvents)))"

text \<open>The invariant of an incident: every recovered device is an affected device.\<close>

definition recoveredWithinAffected :: "NetworkIncident \<Rightarrow> bool" where
  "recoveredWithinAffected inc = (set (recoveredDevices inc) \<subseteq> set (affectedDevices inc))"

section \<open>NotificationService\<close>

datatype alertType = alert_critical | alert_warning | alert_info

record AlertNotification =
  n_id :: string
  n_type :: alertType
  title :: string
  message :: string
  n_imei :: "string option"
  n_timestamp :: jsdate
  acknowledged :: bool
  acknowledgedBy :: "string option"
  acknowledgedAt :: "jsdate option"

text \<open>\<open>Omit<AlertNotification, 'id' | 'timestamp' | 'acknowledged'>\<close>\<close>

record NotificationInput =
  in_type :: alertType
  in_title :: string
  in_message :: string
  in_imei :: "string option"
  in_acknowledgedBy :: "string option"
  in_acknowledgedAt :: "jsdate option"

text \<open>
  The state of the service: the stored notifications, newest first, the two
  switches, and the number of times the listeners have been notified.  The
  browser notification and the alert sound are effects outside the state.
\<close>

record NotificationService =
  notifications :: "AlertNotification list"
  isEnabled :: bool
  soundEnabled :: bool
  notifyCount :: nat

definition newService :: NotificationService where
  "newService = \<lparr> notifications = [], isEnabled = True, soundEnabled = True, notifyCount = 0 \<rparr>"

definition notifyListeners :: "NotificationService \<Rightarrow> NotificationService" where
  "notifyListeners s = s\<lparr> notifyCount := Suc (notifyCount s) \<rparr>"

text \<open>
  \<open>addNotification\<close>: \<open>newId\<close> is the identifier built from the clock and the random
  suffix, \<open>now\<close> the clock reading.
\<close>

definition newNotification :: "string \<Rightarrow> int \<Rightarrow> NotificationInput \<Rightarrow> AlertNotification" where
  "newNotification newId now notification =
     \<lparr> n_id = newId, n_type = in_type notification, title = in_title notification,
       message = in_message notification, n_imei = in_imei notification,
       n_timestamp = Date now, acknowledged = False,
       acknowledgedBy = in_acknowledgedBy notification,
       acknowledgedAt = in_acknowledgedAt notification \<rparr>"

definition addNotification :: "string \<Rightarrow> int \<Rightarrow> NotificationInput \<Rightarrow> NotificationService \<Rightarrow> NotificationService" where
  "addNotification newId now notification s =
     (if \<not> isEnabled s then s
      else (let unshifted = newNotification newId now notification # notifications s;
                kept = (if length unshifted > 100 then take 100 unshifted else unshifted)
            in notifyListeners (s\<lparr> notifications := kept \<rparr>)))"

text \<open>The mutation of the object that \<open>notifications.find(n => n.id === id)\<close> returned.\<close>

fun ackFirst :: "string \<Rightarrow> string \<Rightarrow> int \<Rightarrow> AlertNotification list \<Rightarrow> AlertNotification list" where
  "ackFirst ident by now [] = []"
| "ackFirst ident by now (n # ns) =
     (if n_id n = ident
      then n\<lparr> acknowledged := True, acknowledgedBy := Some by, acknowledgedAt := Some (Date now) \<rparr> # ns
      else n # ackFirst ident by now ns)"

definition acknowledgeNotification :: "string \<Rightarrow> string \<Rightarrow> int \<Rightarrow> NotificationService \<Rightarrow> NotificationService" where
  "acknowledgeNotification ident by now s =
     (case find (\<lambda>n. n_id n = ident) (notifications s) of
        None \<Rightarrow> s
      | Some notification \<Rightarrow>
          if \<not> acknowledged notification
          then notifyListeners (s\<lparr> notifications := ackFirst ident by now (notifications s) \<rparr>)
          else s)"

text \<open>Adding a sequence of notifications, each with its identifier and clock reading.\<close>

definition addAll :: "(string \<times> int \<times> NotificationInput) list \<Rightarrow> NotificationService \<Rightarrow> NotificationService" where
  "addAll xs s = foldl (\<lambda>s (newId, now, n). addNotification newId now n s) s xs"

section \<open>Concrete logs\<close>

text \<open>Builders for the concrete logs on which the services are run below.\<close>

definition ignitionLog :: "string \<Rightarrow> string \<Rightarrow> tsinput \<Rightarrow> real option \<Rightarrow> IgnitionLog" where
  "ignitionLog i d ts v =
     \<lparr> logId = i, deviceImei = d, timestamp = ts, voltage = v, location = None, address = [] \<rparr>"

definition exceptionLog :: "string \<Rightarrow> string \<Rightarrow> tsinput \<Rightarrow> string \<Rightarrow> string \<Rightarrow> ExceptionLog" where
  "exceptionLog i d ts m dt =
     \<lparr> logId = i, deviceImei = d, timestamp = ts, main = Some m, details = Some dt \<rparr>"

definition infoInput :: NotificationInput where
  "infoInput = \<lparr> in_type = alert_info, in_title = ''Predictive Alert'', in_message = ''m'',
                 in_imei = None, in_acknowledgedBy = None, in_acknowledgedAt = None \<rparr>"

definition sampleId :: "nat \<Rightarrow> string" where
  "sampleId k = ''incident_'' @ replicate k CHR ''i''"

definition networkEvent :: "string \<Rightarrow> string \<Rightarrow> int \<Rightarrow> eventType \<Rightarrow> NetworkEvent" where
  "networkEvent i d t ty =
     \<lparr> ev_id = i, ev_deviceImei = d, ev_timestamp = t, eventType = ty,
       ev_details = ''Network event detected'', incidentId = None \<rparr>"

text \<open>Device A goes down and comes back one minute later.\<close>

definition downUpLogs :: "ExceptionLog list" where
  "downUpLogs = [exceptionLog ''1'' ''A'' (DateObj (Date 0)) ''Server Down'' [],
                 exceptionLog ''2'' ''A'' (DateObj (Date 60000)) ''Server Up'' []]"

text \<open>Eleven devices report the server down at the same instant.\<close>

definition elevenDown :: "ExceptionLog list" where
  "elevenDown = map (\<lambda>d. exceptionLog d d (DateObj (Date 0)) ''Server Down'' [])
                  [''d0'', ''d1'', ''d2'', ''d3'', ''d4'', ''d5'', ''d6'', ''d7'', ''d8'', ''d9'', ''d10'']"

text \<open>
  Device A goes down and comes back one minute later; two minutes after the
  start device \<open>d\<close> goes down.
\<close>

definition reoutageLogs :: "string \<Rightarrow> ExceptionLog list" where
  "reoutageLogs d = [exceptionLog ''1'' ''A'' (DateObj (Date 0)) ''Server Down'' [],
                     exceptionLog ''2'' ''A'' (DateObj (Date 60000)) ''Server Up'' [],
                     exceptionLog ''3'' d (DateObj (Date 120000)) ''Server Down'' []]"

text \<open>Five ignition logs of device A with the voltages 12.4, 12.2, 12.0, 11.8 and 11.6.\<close>

definition decliningLogs :: "IgnitionLog list" where
  "decliningLogs = [ignitionLog ''1'' ''A'' (DateObj (Date 1000)) (Some 12.4),
                    ignitionLog ''2'' ''A'' (DateObj (Date 2000)) (Some 12.2),
                    ignitionLog ''3'' ''A'' (DateObj (Date 3000)) (Some 12.0),
                    ignitionLog ''4'' ''A'' (DateObj (Date 4000)) (Some 11.8),
                    ignitionLog ''5'' ''A'' (DateObj (Date 5000)) (Some 11.6)]"

text \<open>Three ignition logs of device B with a voltage of 11.2.\<close>

definition lowLogs :: "IgnitionLog list" where
  "lowLogs = [ignitionLog ''6'' ''B'' (DateObj (Date 1000)) (Some 11.2),
              ignitionLog ''7'' ''B'' (DateObj (Date 2000)) (Some 11.2),
              ignitionLog ''8'' ''B'' (DateObj (Date 3000)) (Some 11.2)]"

section \<open>Theorems: timestamps\<close>

lemma strategy_valid: "strategy r = Some d \<Longrightarrow> isValid d"
  by (auto simp: strategy_def split: sum.splits if_splits)

lemma isValid_Date: "isValid d \<Longrightarrow> \<exists>t. d = Date t"
  by (cases d) auto

lemma parseTimestamp_returns: "\<exists>t. parseTimestamp L now ts = Inr (Date t)"
proof (cases ts)
  case (DateObj d)
  then show ?thesis by (cases d) auto
next
  case (Str s)
  then show ?thesis
    by (auto split: option.splits dest!: strategy_valid isValid_Date)
qed auto

text \<open>
  C9.  \<open>parseTimestamp\<close> is total: whatever the input is (a date object, valid
  or not, any string, null or undefined) and however the parsers of the library
  behave (also when they throw), the call returns a valid date and never ends
  with an exception.  A missing timestamp (undefined, null, the empty string)
  gives the current time, and so does a string on which all four parsing
  strategies fail; a valid date object is returned as it is.
\<close>

theorem parseTimestamp_total:
  "(\<exists>t. parseTimestamp L now ts = Inr (Date t))
   \<and> parseTimestamp L now Undefined = Inr (Date now)
   \<and> parseTimestamp L now Null = Inr (Date now)
   \<and> parseTimestamp L now (Str []) = Inr (Date now)
   \<and> parseTimestamp L now OtherValue = Inr (Date now)
   \<and> parseTimestamp L now (DateObj (Date t0)) = Inr (Date t0)
   \<and> parseTimestamp L now (DateObj InvalidDate) = Inr (Date now)
   \<and> (strategy (parseISO L s) = None
        \<and> strategy (parse L s ''dd/MM/yyyy HH:mm:ss.SSS'' (Date now)) = None
        \<and> strategy (parse L s ''dd/MM/yyyy HH:mm:ss'' (Date now)) = None
        \<and> strategy (newDate L s) = None
      \<longrightarrow> parseTimestamp L now (Str s) = Inr (Date now))"
  using parseTimestamp_returns [of L now ts] by simp

theorem parseTimestamp_total_witness:
  "strategy (parseISO rejectingLib ''soon'') = None
   \<and> strategy (parse rejectingLib ''soon'' ''dd/MM/yyyy HH:mm:ss.SSS'' (Date 1000)) = None
   \<and> strategy (parse rejectingLib ''soon'' ''dd/MM/yyyy HH:mm:ss'' (Date 1000)) = None
   \<and> strategy (newDate rejectingLib ''soon'') = None
   \<and> parseTimestamp rejectingLib 1000 (Str ''soon'') = Inr (Date 1000)"
proof -
  have h: "strategy (parseISO rejectingLib ''soon'') = None
     \<and> strategy (parse rejectingLib ''soon'' ''dd/MM/yyyy HH:mm:ss.SSS'' (Date 1000)) = None
     \<and> strategy (parse rejectingLib ''soon'' ''dd/MM/yyyy HH:mm:ss'' (Date 1000)) = None
     \<and> strategy (newDate rejectingLib ''soon'') = None"
    by (simp add: rejectingLib_def strategy_def)
  from h parseTimestamp_total [of rejectingLib 1000 Undefined 0 "''soon''"]
  show ?thesis by blast
qed

section \<open>Theorems: notifications\<close>

lemma addNotification_enabled: "isEnabled (addNotification i t n s) = isEnabled s"
  by (simp add: addNotification_def notifyListeners_def Let_def)

lemma addNotification_notifications:
  "isEnabled s \<Longrightarrow>
   notifications (addNotification i t n s) = take 100 (newNotification i t n # notifications s)"
  by (simp add: addNotification_def notifyListeners_def Let_def)

lemma addAll_snoc: "addAll (xs @ [(i, t, n)]) s = addNotification i t n (addAll xs s)"
  by (simp add: addAll_def)

lemma addAll_enabled: "isEnabled (addAll xs s) = isEnabled s"
  by (induction xs rule: rev_induct) (auto simp: addAll_def addNotification_enabled)

lemma addAll_notifications:
  "isEnabled s \<Longrightarrow> xs \<noteq> [] \<Longrightarrow>
   notifications (addAll xs s) =
     take 100 (rev (map (\<lambda>(i, t, n). newNotification i t n) xs) @ notifications s)"
proof (induction xs rule: rev_induct)
  case Nil
  then show ?case by simp
next
  case (snoc x xs)
  obtain i t n where x: "x = (i, t, n)" by (cases x) auto
  have en: "isEnabled (addAll xs s)" using snoc.prems by (simp add: addAll_enabled)
  show ?case
  proof (cases "xs = []")
    case True
    then show ?thesis using snoc.prems x
      by (simp add: addAll_snoc addNotification_notifications addAll_def)
  next
    case False
    then show ?thesis using snoc x en
      by (simp add: addAll_snoc addNotification_notifications take_Cons' min_def)
  qed
qed

lemma find_ackFirst:
  "find (\<lambda>n. n_id n = ident) ns = Some n \<Longrightarrow>
   \<exists>m. find (\<lambda>n. n_id n = ident) (ackFirst ident by now ns) = Some m \<and> acknowledged m"
  by (induction ns) (auto split: if_splits)

lemma acknowledge_twice:
  "acknowledgeNotification ident by2 now2 (acknowledgeNotification ident by now s) =
   acknowledgeNotification ident by now s"
proof (cases "find (\<lambda>n. n_id n = ident) (notifications s)")
  case None
  then show ?thesis by (simp add: acknowledgeNotification_def)
next
  case (Some n)
  show ?thesis
  proof (cases "acknowledged n")
    case True
    then show ?thesis using Some by (simp add: acknowledgeNotification_def)
  next
    case False
    from find_ackFirst [OF Some, of "by" now] obtain m where
      "find (\<lambda>n. n_id n = ident) (ackFirst ident by now (notifications s)) = Some m"
      "acknowledged m" by blast
    then show ?thesis using Some False
      by (simp add: acknowledgeNotification_def notifyListeners_def)
  qed
qed

text \<open>
  C8.  On an enabled service, adding 101 notifications leaves exactly 100
  stored: the 100 newest, newest first; the first of the 101 (the oldest) and
  everything stored before are evicted.  \<open>acknowledgeNotification\<close> with an
  identifier that no stored notification has leaves the state unchanged, and so
  does it when the notification found is already acknowledged; acknowledging a
  second time changes nothing (neither the list nor the count of listener
  rounds).
\<close>

theorem notifications_capped_acknowledge_idempotent:
  "(isEnabled s \<and> length xs = 101 \<longrightarrow>
      length (notifications (addAll xs s)) = 100
      \<and> notifications (addAll xs s) = rev (map (\<lambda>(i, t, n). newNotification i t n) (tl xs)))
   \<and> (find (\<lambda>n. n_id n = ident) (notifications u) = None \<longrightarrow>
        acknowledgeNotification ident by now u = u)
   \<and> (find (\<lambda>n. n_id n = ident') (notifications v) = Some m \<and> acknowledged m \<longrightarrow>
        acknowledgeNotification ident' by now v = v)
   \<and> acknowledgeNotification ident by2 now2 (acknowledgeNotification ident by now w) =
        acknowledgeNotification ident by now w"
proof -
  have "length (notifications (addAll xs s)) = 100 \<and>
        notifications (addAll xs s) = rev (map (\<lambda>(i, t, n). newNotification i t n) (tl xs))"
    if en: "isEnabled s" and len: "length xs = 101"
  proof -
    from len obtain y ys where xs: "xs = y # ys" and ys: "length ys = 100"
      by (cases xs) auto
    have "notifications (addAll xs s) =
            take 100 (rev (map (\<lambda>(i, t, n). newNotification i t n) xs) @ notifications s)"
      using en xs by (intro addAll_notifications) auto
    then show ?thesis using xs ys by simp
  qed
  moreover have "acknowledgeNotification ident by now u = u"
    if "find (\<lambda>n. n_id n = ident) (notifications u) = None"
    using that by (simp add: acknowledgeNotification_def)
  moreover have "acknowledgeNotification ident' by now v = v"
    if "find (\<lambda>n. n_id n = ident') (notifications v) = Some m \<and> acknowledged m"
    using that by (simp add: acknowledgeNotification_def)
  ultimately show ?thesis
    using acknowledge_twice [of ident by2 now2 "by" now w] by blast
qed

theorem notifications_capped_acknowledge_idempotent_witness:
  "isEnabled newService
   \<and> length (map (\<lambda>k. (''alert'', int k, infoInput)) [0..<101]) = 101
   \<and> length (notifications (addAll (map (\<lambda>k. (''alert'', int k, infoInput)) [0..<101]) newService)) = 100
   \<and> find (\<lambda>n. n_id n = ''a'') (notifications newService) = None
   \<and> acknowledgeNotification ''a'' ''op'' 5 newService = newService
   \<and> find (\<lambda>n. n_id n = ''b'')
        (notifications (acknowledgeNotification ''b'' ''op'' 3 (addNotification ''b'' 1 infoInput newService)))
      = Some ((newNotification ''b'' 1 infoInput)
                \<lparr> acknowledged := True, acknowledgedBy := Some ''op'', acknowledgedAt := Some (Date 3) \<rparr>)
   \<and> acknowledged ((newNotification ''b'' 1 infoInput)
                \<lparr> acknowledged := True, acknowledgedBy := Some ''op'', acknowledgedAt := Some (Date 3) \<rparr>)
   \<and> acknowledgeNotification ''b'' ''op'' 5
        (acknowledgeNotification ''b'' ''op'' 3 (addNotification ''b'' 1 infoInput newService)) =
      acknowledgeNotification ''b'' ''op'' 3 (addNotification ''b'' 1 infoInput newService)"
proof -
  have a: "isEnabled newService \<and> length (map (\<lambda>k. (''alert'', int k, infoInput)) [0..<101]) = 101"
    by (simp add: newService_def)
  have b: "find (\<lambda>n. n_id n = ''a'') (notifications newService) = None"
    by (simp add: newService_def)
  have c: "find (\<lambda>n. n_id n = ''b'')
        (notifications (acknowledgeNotification ''b'' ''op'' 3 (addNotification ''b'' 1 infoInput newService)))
      = Some ((newNotification ''b'' 1 infoInput)
                \<lparr> acknowledged := True, acknowledgedBy := Some ''op'', acknowledgedAt := Some (Date 3) \<rparr>)"
    by (simp add: newService_def addNotification_def acknowledgeNotification_def notifyListeners_def
        newNotification_def Let_def)
  have d: "acknowledged ((newNotification ''b'' 1 infoInput)
                \<lparr> acknowledged := True, acknowledgedBy := Some ''op'', acknowledgedAt := Some (Date 3) \<rparr>)"
    by simp
  from a b c d
    notifications_capped_acknowledge_idempotent
      [of newService "map (\<lambda>k. (''alert'', int k, infoInput)) [0..<101]" "''a''" newService "''op''" 5
          "''b''" "acknowledgeNotification ''b'' ''op'' 3 (addNotification ''b'' 1 infoInput newService)"
          "(newNotification ''b'' 1 infoInput)
                \<lparr> acknowledged := True, acknowledgedBy := Some ''op'', acknowledgedAt := Some (Date 3) \<rparr>"]
  show ?thesis by blast
qed

section \<open>Theorems: device health score\<close>

text \<open>
  C1 (as the code has it).  For every device with no ignition event and no
  exception event among the logs, \<open>calculateDeviceHealthScore\<close> returns the
  score 49: connectivity 0, battery health 12.0 / 12.6 * 100 (about 95.24, no
  voltage reading, 12.0 V baseline), error rate 100 and uptime 0 give
  0.25 * 95.24 + 0.25 * 100 = 48.81, which rounds to 49.  The reported factors
  are 0, 95, 100 and 0.
\<close>

theorem health_score_no_events:
  "filter (\<lambda>l. deviceImei l = imei) ignitionLogs = [] \<Longrightarrow>
   filter (\<lambda>l. deviceImei l = imei) exceptionLogs = [] \<Longrightarrow>
   score (calculateDeviceHealthScore L now imei ignitionLogs exceptionLogs) = 49
   \<and> factors (calculateDeviceHealthScore L now imei ignitionLogs exceptionLogs) =
       \<lparr> connectivity = 0, batteryHealth = 95, errorRate = 100, uptime = 0 \<rparr>"
  by (simp add: calculateDeviceHealthScore_def healthFactors_def recentLogs_def slice_last_def
      reduce_sum_def Math_round_def Let_def)

theorem health_score_no_events_witness:
  "filter (\<lambda>l. deviceImei l = ''A'') [ignitionLog ''1'' ''B'' Undefined (Some 12.5)] = []
   \<and> filter (\<lambda>l. deviceImei l = ''A'') [exceptionLog ''2'' ''B'' Undefined ''Server Down'' ''''] = []
   \<and> score (calculateDeviceHealthScore rejectingLib 0 ''A''
         [ignitionLog ''1'' ''B'' Undefined (Some 12.5)]
         [exceptionLog ''2'' ''B'' Undefined ''Server Down'' '''']) = 49"
proof -
  have a: "filter (\<lambda>l. deviceImei l = ''A'') [ignitionLog ''1'' ''B'' Undefined (Some 12.5)] = []"
    by (simp add: ignitionLog_def)
  have b: "filter (\<lambda>l. deviceImei l = ''A'') [exceptionLog ''2'' ''B'' Undefined ''Server Down'' ''''] = []"
    by (simp add: exceptionLog_def)
  from a b health_score_no_events [OF a b, of rejectingLib 0]
  show ?thesis by blast
qed

text \<open>
  C1 as stated fails: on the empty log collections the score is 49, not 45.
\<close>

theorem health_score_no_events_counterexample:
  "score (calculateDeviceHealthScore rejectingLib 0 ''A'' [] []) \<noteq> 45"
  by (simp add: calculateDeviceHealthScore_def healthFactors_def recentLogs_def slice_last_def
      reduce_sum_def Math_round_def Let_def)

text \<open>
  C5.  The uptime factor counts the events of the last 24 hours only among the
  events of the last hour (\<open>recentActivity\<close> filters \<open>recentLogs\<close>).  A device
  whose only event is two hours old gets the uptime factor 0, whatever the
  library and the clock are, although the event is later than \<open>dayAgo\<close> (with
  days of 24 hours); min(100, 5 * 1) would be 5.
\<close>

theorem uptime_two_hours_old_event:
  "uptime (healthFactors L now ''A''
      [ignitionLog ''1'' ''A'' (DateObj (Date (now - 7200000))) None] []) = 0
   \<and> uptime (factors (calculateDeviceHealthScore L now ''A''
      [ignitionLog ''1'' ''A'' (DateObj (Date (now - 7200000))) None] [])) = 0
   \<and> dateGt (logDate rejectingLib now (DateObj (Date (now - 7200000))))
             (subDays rejectingLib (Date now) 1)"
  by (simp add: calculateDeviceHealthScore_def healthFactors_def recentLogs_def logDate_def
      ignitionLog_def Math_round_def rejectingLib_def Let_def)

section \<open>Theorems: performance metrics\<close>

lemma startsWith_iff: "startsWith s p \<longleftrightarrow> (\<exists>b. s = p @ b)"
  by (induction s p rule: startsWith.induct) auto

lemma includes_str_iff: "includes_str s p \<longleftrightarrow> (\<exists>a b. s = a @ p @ b)"
proof (induction s)
  case Nil
  then show ?case by auto
next
  case (Cons c cs)
  have "(\<exists>a b. c # cs = a @ p @ b) \<longleftrightarrow> (\<exists>b. c # cs = p @ b) \<or> (\<exists>a b. cs = a @ p @ b)"
    by (auto simp: Cons_eq_append_conv)
  then show ?case using Cons by (simp add: startsWith_iff del: startsWith.simps)
qed

lemma mainIncludes_iff:
  "mainIncludes e p \<longleftrightarrow> (\<exists>m a b. main e = Some m \<and> toLowerCase m = a @ p @ b)"
  by (auto simp: mainIncludes_def includes_str_iff split: option.splits)

lemma isFailure_iff:
  "isFailure e \<longleftrightarrow> (\<exists>m a b. main e = Some m \<and>
       (toLowerCase m = a @ ''server down'' @ b \<or> toLowerCase m = a @ ''connection timeout'' @ b \<or>
        toLowerCase m = a @ ''error'' @ b))"
  unfolding isFailure_def mainIncludes_iff by blast

lemma Math_round_of_nat: "Math_round (real n) = real n"
  by (simp add: Math_round_def)

text \<open>
  C7 (as the code has it).  \<open>calculateDevicePerformanceMetrics\<close> counts as a
  failure exactly those exceptions of the device whose category text is present
  and contains, after lowering the case, "server down", "connection timeout" or
  "error" as a substring.  With \<open>n\<close> the number of failures, the returned MTBF is
  (24 * 7) / max(1, n) rounded to two decimals (\<open>Math.round(mtbf * 100) / 100\<close>),
  and with fewer than 2 failures it is the full window of 168 hours.
\<close>

theorem mtbf_failures:
  "criticalExceptions (calculateDevicePerformanceMetrics L now imei ignitionLogs exceptionLogs) =
       length (filter (\<lambda>e. deviceImei e = imei \<and> (\<exists>m a b. main e = Some m \<and>
                 (toLowerCase m = a @ ''server down'' @ b \<or>
                  toLowerCase m = a @ ''connection timeout'' @ b \<or>
                  toLowerCase m = a @ ''error'' @ b))) exceptionLogs)
   \<and> mtbf (calculateDevicePerformanceMetrics L now imei ignitionLogs exceptionLogs) =
         Math_round (((24 * 7) / real (max 1 (criticalExceptions
            (calculateDevicePerformanceMetrics L now imei ignitionLogs exceptionLogs)))) * 100) / 100
   \<and> (criticalExceptions (calculateDevicePerformanceMetrics L now imei ignitionLogs exceptionLogs) < 2
        \<longrightarrow> mtbf (calculateDevicePerformanceMetrics L now imei ignitionLogs exceptionLogs) = 24 * 7)"
  (is "?A \<and> ?B \<and> ?C")
proof -
  let ?r = "calculateDevicePerformanceMetrics L now imei ignitionLogs exceptionLogs"
  have a: "criticalExceptions ?r =
             length (filter isFailure (filter (\<lambda>l. deviceImei l = imei) exceptionLogs))"
    by (simp add: calculateDevicePerformanceMetrics_def Let_def)
  have b: "mtbf ?r = Math_round ((if criticalExceptions ?r > 1
                                   then (24 * 7) / real (criticalExceptions ?r) else 24 * 7) * 100) / 100"
    by (simp add: calculateDevicePerformanceMetrics_def Let_def)
  have c: "Math_round 16800 = 16800" using Math_round_of_nat [of 16800] by simp
  have A: ?A unfolding a by (simp add: isFailure_iff conj_commute)
  have B: ?B unfolding b by (auto simp: max_def)
  have C: ?C unfolding b using c by simp
  show ?thesis using A B C by blast
qed

theorem mtbf_failures_witness:
  "criticalExceptions (calculateDevicePerformanceMetrics rejectingLib 0 ''A'' []
      [exceptionLog ''1'' ''A'' Undefined ''Server Down'' '''']) < 2
   \<and> mtbf (calculateDevicePerformanceMetrics rejectingLib 0 ''A'' []
      [exceptionLog ''1'' ''A'' Undefined ''Server Down'' '''']) = 168"
proof -
  have h: "criticalExceptions (calculateDevicePerformanceMetrics rejectingLib 0 ''A'' []
      [exceptionLog ''1'' ''A'' Undefined ''Server Down'' '''']) = 1"
    by (simp add: calculateDevicePerformanceMetrics_def isFailure_def mainIncludes_def
        exceptionLog_def toLowerCase_def toLowerChar_def Let_def)
  show ?thesis
    using h mtbf_failures [of rejectingLib 0 "''A''" "[]"
        "[exceptionLog ''1'' ''A'' Undefined ''Server Down'' '''']"]
    by simp
qed

text \<open>
  C7 as stated fails: an exception of category "GPS Timeout" contains "timeout"
  but is not counted as a failure.
\<close>

theorem mtbf_failures_counterexample:
  "includes_str (toLowerCase ''GPS Timeout'') ''timeout''
   \<and> criticalExceptions (calculateDevicePerformanceMetrics rejectingLib 0 ''A'' []
        [exceptionLog ''1'' ''A'' Undefined ''GPS Timeout'' '''']) = 0"
  by (simp add: calculateDevicePerformanceMetrics_def isFailure_def mainIncludes_def
      exceptionLog_def toLowerCase_def toLowerChar_def Let_def)

section \<open>Theorems: network incidents\<close>

lemma findIndex_Some: "findIndex P xs = Some i \<Longrightarrow> i < length xs \<and> P (xs ! i)"
  by (induction xs arbitrary: i) (auto split: if_splits)

lemma list_all_update: "\<forall>x\<in>set xs. Q x \<Longrightarrow> Q y \<Longrightarrow> \<forall>x\<in>set (xs[i := y]). Q x"
  using set_update_subset_insert[of xs i y] by auto

lemma recoveredWithinAffected_startIncident:
  "\<forall>inc\<in>set (incidents st). recoveredWithinAffected inc \<Longrightarrow> \<forall>inc\<in>set (incidents (startIncident mkId st ev)). recoveredWithinAffected inc"
  by (auto simp: startIncident_def recoveredWithinAffected_def Let_def)



lemma recoveredWithinAffected_onOutage:
  assumes "\<forall>inc\<in>set (incidents st). recoveredWithinAffected inc"
  shows "\<forall>inc\<in>set (incidents (onOutage mkId st ev)). recoveredWithinAffected inc"
proof -
  let ?st = "st\<lparr>deviceOutages := (deviceOutages st)(ev_deviceImei ev \<mapsto> ev_timestamp ev)\<rparr>"
  have inv: "\<forall>inc\<in>set (incidents ?st). recoveredWithinAffected inc" using assms by simp
  have new: "\<forall>inc\<in>set (incidents (startIncident mkId ?st ev)). recoveredWithinAffected inc"
    by (rule recoveredWithinAffected_startIncident [OF inv])
  show ?thesis
  proof (cases "currentIncident st")
    case None
    then show ?thesis using new by (simp add: onOutage_def)
  next
    case (Some i)
    let ?cur = "incidents st ! i"
    let ?cur' = "if ev_deviceImei ev \<in> set (affectedDevices ?cur) then ?cur
                 else ?cur\<lparr>affectedDevices := affectedDevices ?cur @ [ev_deviceImei ev]\<rparr>"
    have upd: "\<forall>inc\<in>set ((incidents st)[i := ?cur']). recoveredWithinAffected inc"
    proof (cases "i < length (incidents st)")
      case True
      then have "recoveredWithinAffected ?cur" using assms by simp
      then have "recoveredWithinAffected ?cur'" by (auto simp: recoveredWithinAffected_def)
      then show ?thesis using assms by (rule_tac list_all_update)
    next
      case False
      then have "(incidents st)[i := ?cur'] = incidents st" by (simp add: list_update_beyond)
      then show ?thesis using assms by simp
    qed
    show ?thesis
    proof (cases "ev_timestamp ev - startTime ?cur > INCIDENT_WINDOW")
      case True
      then show ?thesis using Some new by (simp add: onOutage_def)
    next
      case False
      then show ?thesis using Some upd by (simp add: onOutage_def Let_def)
    qed
  qed
qed


lemma recoveredWithinAffected_recoverIn:
  "recoveredWithinAffected inc \<Longrightarrow> ev_deviceImei ev \<in> set (affectedDevices inc) \<Longrightarrow> recoveredWithinAffected (recoverIn inc ev)"
  by (auto simp: recoverIn_def recoveredWithinAffected_def Let_def)

lemma recoveredWithinAffected_onRecovery:
  assumes "\<forall>inc\<in>set (incidents st). recoveredWithinAffected inc"
  shows "\<forall>inc\<in>set (incidents (onRecovery st ev)). recoveredWithinAffected inc"
proof (cases "deviceOutages st (ev_deviceImei ev)")
  case None
  then show ?thesis using assms by (simp add: onRecovery_def)
next
  case out: (Some t)
  show ?thesis
  proof (cases "findIndex (\<lambda>inc. ev_deviceImei ev \<in> set (affectedDevices inc) \<and> status inc = ongoing) (incidents st)")
    case None
    then show ?thesis using out assms by (simp add: onRecovery_def)
  next
    case (Some i)
    from findIndex_Some[OF Some] have i: "i < length (incidents st)"
      and a: "ev_deviceImei ev \<in> set (affectedDevices (incidents st ! i))" by auto
    have "recoveredWithinAffected (recoverIn (incidents st ! i) ev)"
      using recoveredWithinAffected_recoverIn a i assms by simp
    with assms have "\<forall>inc\<in>set ((incidents st)[i := recoverIn (incidents st ! i) ev]). recoveredWithinAffected inc"
      by (rule list_all_update)
    then show ?thesis using Some out
      by (simp add: onRecovery_def Let_def)
  qed
qed

lemma recoveredWithinAffected_onEvent:
  assumes "\<forall>inc\<in>set (incidents st). recoveredWithinAffected inc"
  shows "\<forall>inc\<in>set (incidents (onEvent mkId st ev)). recoveredWithinAffected inc"
proof (cases "eventType ev")
  case outage
  then have "onEvent mkId st ev = onOutage mkId st ev" by (simp add: onEvent_def)
  then show ?thesis using recoveredWithinAffected_onOutage [OF assms] by simp
next
  case recovery
  then have "onEvent mkId st ev = onRecovery st ev" by (simp add: onEvent_def)
  then show ?thesis using recoveredWithinAffected_onRecovery [OF assms] by simp
next
  case timeout
  then have "incidents (onEvent mkId st ev) = incidents st" by (simp add: onEvent_def)
  then show ?thesis using assms by simp
qed

lemma recoveredWithinAffected_foldl:
  "\<forall>inc\<in>set (incidents st). recoveredWithinAffected inc \<Longrightarrow> \<forall>inc\<in>set (incidents (foldl (onEvent mkId) st evs)). recoveredWithinAffected inc"
proof (induction evs arbitrary: st)
  case Nil
  then show ?case by simp
next
  case (Cons a evs)
  have "\<forall>inc\<in>set (incidents (onEvent mkId st a)). recoveredWithinAffected inc"
    by (rule recoveredWithinAffected_onEvent [OF Cons.prems])
  from Cons.IH [OF this] show ?case by simp
qed

lemma recoveredWithinAffected_groupingPass: "\<forall>inc\<in>set (incidents (groupingPass mkId evs)). recoveredWithinAffected inc"
  unfolding groupingPass_def by (rule recoveredWithinAffected_foldl) (simp add: initialGroupState_def)

lemma finalize_fields: "affectedDevices (finalizeIncident inc) = affectedDevices inc"
  "recoveredDevices (finalizeIncident inc) = recoveredDevices inc"
  "status (finalizeIncident inc) = status inc"
  by (simp_all add: finalizeIncident_def Let_def)


subsection \<open>Running the pass on concrete logs\<close>

lemma toLowerCase_Nil: "toLowerCase [] = []"
  by (simp add: toLowerCase_def)

lemma lower_server_down: "toLowerCase ''Server Down'' = ''server down''"
  by (simp add: toLowerCase_def toLowerChar_def)
lemma lower_server_up: "toLowerCase ''Server Up'' = ''server up''"
  by (simp add: toLowerCase_def toLowerChar_def)

lemma classify_server_down: "classifyEvent (exceptionLog i d ts ''Server Down'' []) = Some outage"
  by (simp add: classifyEvent_def exceptionLog_def lowerOrEmpty_def lower_server_down toLowerCase_Nil Let_def)

lemma classify_server_up: "classifyEvent (exceptionLog i d ts ''Server Up'' []) = Some recovery"
  by (simp add: classifyEvent_def exceptionLog_def lowerOrEmpty_def lower_server_up toLowerCase_Nil Let_def)

lemma details_main: "eventDetails (exceptionLog i d ts (c # cs) []) = c # cs"
  by (simp add: exceptionLog_def eventDetails_def)

lemma safe_date: "getSafeTimestamp L now (timestamp (exceptionLog i d (DateObj (Date t)) m dt)) = t"
  by (simp add: getSafeTimestamp_def logDate_def exceptionLog_def)

lemmas eval_extract = extractNetworkEvents_def classify_server_down classify_server_up
  details_main safe_date networkEvent_def
lemmas eval_group = groupingPass_def initialGroupState_def onEvent_def onOutage_def
  startIncident_def onRecovery_def recoverIn_def determineRecoveryPattern_def Let_def sampleId_def
  Math_round_def INCIDENT_WINDOW_def

lemma extract_downUp: "extractNetworkEvents L now downUpLogs =
   [(networkEvent ''1'' ''A'' 0 outage)\<lparr> ev_details := ''Server Down'' \<rparr>,
    (networkEvent ''2'' ''A'' 60000 recovery)\<lparr> ev_details := ''Server Up'' \<rparr>]"
  unfolding downUpLogs_def
  by (simp add: eval_extract) (simp add: exceptionLog_def)

lemma extract_reoutage: "extractNetworkEvents L now (reoutageLogs d) =
   [(networkEvent ''1'' ''A'' 0 outage)\<lparr> ev_details := ''Server Down'' \<rparr>,
    (networkEvent ''2'' ''A'' 60000 recovery)\<lparr> ev_details := ''Server Up'' \<rparr>,
    (networkEvent ''3'' d 120000 outage)\<lparr> ev_details := ''Server Down'' \<rparr>]"
  unfolding reoutageLogs_def
  by (simp add: eval_extract) (simp add: exceptionLog_def)

lemma analyze_downUp:
  "fst (analyzeNetworkEvents L now sampleId downUpLogs) =
     [\<lparr> inc_id = ''incident_'', startTime = 0, endTime = Some 60000, duration = Some 1,
        status = resolved, affectedDevices = [''A''], recoveredDevices = [''A''],
        inc_severity = medium, impactLevel = 10, recoveryPattern = simultaneous \<rparr>]"
  unfolding analyzeNetworkEvents_def groupEventsIntoIncidents_def extract_downUp
  by (simp add: eval_group networkEvent_def finalizeIncident_def getTotalDeviceCount_def)

lemma pass_downUp_1:
  "incidents (groupingPass sampleId (take 1 (extractNetworkEvents L now downUpLogs))) =
     [\<lparr> inc_id = ''incident_'', startTime = 0, endTime = None, duration = None,
        status = ongoing, affectedDevices = [''A''], recoveredDevices = [],
        inc_severity = critical, impactLevel = 0, recoveryPattern = simultaneous \<rparr>]"
  unfolding extract_downUp
  by (simp add: eval_group networkEvent_def)

text \<open>
  C2.  After every prefix of the events that \<open>analyzeNetworkEvents\<close> extracts
  from the exception logs, every incident of the grouping pass has its recovered
  devices among its affected devices, and so has every incident returned.
\<close>

theorem recovered_subset_affected:
  "(\<forall>n. \<forall>inc\<in>set (incidents (groupingPass mkId (take n (extractNetworkEvents L now exceptionLogs)))).
        set (recoveredDevices inc) \<subseteq> set (affectedDevices inc))
   \<and> (\<forall>inc\<in>set (fst (analyzeNetworkEvents L now mkId exceptionLogs)).
        set (recoveredDevices inc) \<subseteq> set (affectedDevices inc))"
proof (intro conjI allI ballI)
  fix n inc
  assume "inc \<in> set (incidents (groupingPass mkId (take n (extractNetworkEvents L now exceptionLogs))))"
  then have "recoveredWithinAffected inc" using recoveredWithinAffected_groupingPass by blast
  then show "set (recoveredDevices inc) \<subseteq> set (affectedDevices inc)"
    by (simp add: recoveredWithinAffected_def)
next
  fix inc
  assume "inc \<in> set (fst (analyzeNetworkEvents L now mkId exceptionLogs))"
  then obtain inc0 where
    "inc0 \<in> set (incidents (groupingPass mkId (extractNetworkEvents L now exceptionLogs)))"
    and inc: "inc = finalizeIncident inc0"
    by (auto simp: analyzeNetworkEvents_def groupEventsIntoIncidents_def Let_def)
  then have "recoveredWithinAffected inc0" using recoveredWithinAffected_groupingPass by blast
  then show "set (recoveredDevices inc) \<subseteq> set (affectedDevices inc)"
    by (simp add: recoveredWithinAffected_def inc finalize_fields)
qed

theorem recovered_subset_affected_witness:
  "hd (incidents (groupingPass sampleId (take 1 (extractNetworkEvents rejectingLib 0 downUpLogs))))
     \<in> set (incidents (groupingPass sampleId (take 1 (extractNetworkEvents rejectingLib 0 downUpLogs))))
   \<and> set (recoveredDevices (hd (incidents (groupingPass sampleId
             (take 1 (extractNetworkEvents rejectingLib 0 downUpLogs))))))
       \<subseteq> set (affectedDevices (hd (incidents (groupingPass sampleId
             (take 1 (extractNetworkEvents rejectingLib 0 downUpLogs))))))
   \<and> hd (fst (analyzeNetworkEvents rejectingLib 0 sampleId downUpLogs))
       \<in> set (fst (analyzeNetworkEvents rejectingLib 0 sampleId downUpLogs))
   \<and> set (recoveredDevices (hd (fst (analyzeNetworkEvents rejectingLib 0 sampleId downUpLogs))))
       \<subseteq> set (affectedDevices (hd (fst (analyzeNetworkEvents rejectingLib 0 sampleId downUpLogs))))"
proof -
  have a: "hd (incidents (groupingPass sampleId (take 1 (extractNetworkEvents rejectingLib 0 downUpLogs))))
     \<in> set (incidents (groupingPass sampleId (take 1 (extractNetworkEvents rejectingLib 0 downUpLogs))))"
    unfolding pass_downUp_1 by simp
  have b: "hd (fst (analyzeNetworkEvents rejectingLib 0 sampleId downUpLogs))
       \<in> set (fst (analyzeNetworkEvents rejectingLib 0 sampleId downUpLogs))"
    by (simp add: analyze_downUp)
  from a b recovered_subset_affected [of sampleId rejectingLib 0 downUpLogs]
  show ?thesis by blast
qed

text \<open>
  C4 (as the code has it).  Every incident returned by \<open>analyzeNetworkEvents\<close>
  has the impact level round(|affectedDevices| / totalDeviceCount * 100) with
  the configured total device count of 10.  It is never negative, and it is at
  most 100 exactly when the incident has at most as many affected devices as
  the configured total device count; nothing clamps it.
\<close>

theorem impact_level_range:
  "\<forall>inc\<in>set (fst (analyzeNetworkEvents L now mkId exceptionLogs)).
      impactLevel inc = Math_round ((real (length (affectedDevices inc)) / getTotalDeviceCount) * 100)
      \<and> 0 \<le> impactLevel inc
      \<and> (impactLevel inc \<le> 100 \<longleftrightarrow> real (length (affectedDevices inc)) \<le> getTotalDeviceCount)"
proof
  fix inc
  assume "inc \<in> set (fst (analyzeNetworkEvents L now mkId exceptionLogs))"
  then obtain inc0 where inc: "inc = finalizeIncident inc0"
    by (auto simp: analyzeNetworkEvents_def groupEventsIntoIncidents_def Let_def)
  have aff: "affectedDevices inc = affectedDevices inc0"
    by (simp add: inc finalize_fields)
  have "impactLevel inc = Math_round ((real (length (affectedDevices inc0)) / getTotalDeviceCount) * 100)"
    by (simp add: inc finalizeIncident_def Let_def)
  moreover have "(real (length (affectedDevices inc0)) / getTotalDeviceCount) * 100 =
                 real (10 * length (affectedDevices inc0))"
    by (simp add: getTotalDeviceCount_def)
  ultimately have val: "impactLevel inc = real (10 * length (affectedDevices inc0))"
    using Math_round_of_nat [of "10 * length (affectedDevices inc0)"] by simp
  show "impactLevel inc = Math_round ((real (length (affectedDevices inc)) / getTotalDeviceCount) * 100)
      \<and> 0 \<le> impactLevel inc
      \<and> (impactLevel inc \<le> 100 \<longleftrightarrow> real (length (affectedDevices inc)) \<le> getTotalDeviceCount)"
    unfolding aff val
    using Math_round_of_nat [of "10 * length (affectedDevices inc0)"]
    by (simp add: getTotalDeviceCount_def)
qed

theorem impact_level_range_witness:
  "hd (fst (analyzeNetworkEvents rejectingLib 0 sampleId downUpLogs))
       \<in> set (fst (analyzeNetworkEvents rejectingLib 0 sampleId downUpLogs))
   \<and> impactLevel (hd (fst (analyzeNetworkEvents rejectingLib 0 sampleId downUpLogs))) = 10
   \<and> 0 \<le> impactLevel (hd (fst (analyzeNetworkEvents rejectingLib 0 sampleId downUpLogs)))
   \<and> impactLevel (hd (fst (analyzeNetworkEvents rejectingLib 0 sampleId downUpLogs))) \<le> 100"
proof -
  have a: "hd (fst (analyzeNetworkEvents rejectingLib 0 sampleId downUpLogs))
       \<in> set (fst (analyzeNetworkEvents rejectingLib 0 sampleId downUpLogs))"
    by (simp add: analyze_downUp)
  have b: "impactLevel (hd (fst (analyzeNetworkEvents rejectingLib 0 sampleId downUpLogs))) = 10"
    by (simp add: analyze_downUp)
  from a b impact_level_range [of rejectingLib 0 sampleId downUpLogs]
  show ?thesis by simp
qed

text \<open>
  C4 as stated fails: when eleven devices report the server down at the same
  instant, the one incident has the impact level 110.
\<close>

theorem impact_level_range_counterexample:
  "map impactLevel (fst (analyzeNetworkEvents rejectingLib 0 sampleId elevenDown)) = [110]"
  unfolding analyzeNetworkEvents_def groupEventsIntoIncidents_def elevenDown_def
  apply (simp add: eval_extract)
  apply (simp add: exceptionLog_def)
  apply (simp add: eval_group finalizeIncident_def getTotalDeviceCount_def)
  done

text \<open>
  C3.  A resolved incident is mutated by a later outage.  Device A goes down at
  0:00 and recovers at 0:01, which resolves the incident; when device B goes
  down at 0:02, within five minutes of the start of that incident, no new
  incident is opened: B is added to the affected devices of the resolved
  incident, which stays resolved with A as its only recovered device.  When it
  is A that goes down again at 0:02, no new incident is opened either.
\<close>

theorem outage_after_resolution:
  "map status (incidents (groupingPass sampleId
        (take 2 (extractNetworkEvents rejectingLib 0 (reoutageLogs ''B''))))) = [resolved]
   \<and> map affectedDevices (incidents (groupingPass sampleId
        (take 2 (extractNetworkEvents rejectingLib 0 (reoutageLogs ''B''))))) = [[''A'']]
   \<and> map status (fst (analyzeNetworkEvents rejectingLib 0 sampleId (reoutageLogs ''B''))) = [resolved]
   \<and> map affectedDevices (fst (analyzeNetworkEvents rejectingLib 0 sampleId (reoutageLogs ''B'')))
        = [[''A'', ''B'']]
   \<and> map recoveredDevices (fst (analyzeNetworkEvents rejectingLib 0 sampleId (reoutageLogs ''B'')))
        = [[''A'']]
   \<and> map status (fst (analyzeNetworkEvents rejectingLib 0 sampleId (reoutageLogs ''A''))) = [resolved]"
  unfolding analyzeNetworkEvents_def groupEventsIntoIncidents_def extract_reoutage
  by (simp add: eval_group networkEvent_def finalizeIncident_def getTotalDeviceCount_def)

section \<open>Theorems: grouping by device, anomalies and alerts\<close>

lemma ensureGroup_keys: "fst ` set (ensureGroup k g) = insert k (fst ` set g)"
  by (auto simp: ensureGroup_def map_of_eq_None_iff)

lemma ensureGroup_hold: "groupsHold g ign exc \<Longrightarrow> groupsHold (ensureGroup k g) ign exc"
proof -
  assume h: "groupsHold g ign exc"
  show ?thesis
  proof (cases "map_of g k = None")
    case False
    then show ?thesis using h by (auto simp: ensureGroup_def)
  next
    case True
    then have "k \<notin> fst ` set g" by (simp add: map_of_eq_None_iff)
    then have "k \<notin> deviceImei ` set ign" "k \<notin> deviceImei ` set exc"
      using h by (auto simp: groupsHold_def)
    then have "filter (\<lambda>l. deviceImei l = k) ign = []" "filter (\<lambda>l. deviceImei l = k) exc = []"
      by (auto simp: filter_empty_conv)
    then show ?thesis using h True
      by (auto simp: ensureGroup_def groupsHold_def)
  qed
qed

lemma pushIgnition_hold:
  assumes "groupsHold g ign exc"
  shows "groupsHold (pushIgnition l g) (ign @ [l]) exc"
proof -
  let ?g = "ensureGroup (deviceImei l) g"
  have h: "groupsHold ?g ign exc" by (rule ensureGroup_hold [OF assms])
  have k: "deviceImei l \<in> fst ` set ?g" by (simp add: ensureGroup_keys)
  have keys: "fst ` set (pushIgnition l g) = fst ` set ?g"
    by (force simp: pushIgnition_def image_iff split: prod.splits)
  show ?thesis
    unfolding groupsHold_def keys
    using h k by (auto simp: groupsHold_def pushIgnition_def split: if_splits)
qed

lemma pushException_hold:
  assumes "groupsHold g ign exc"
  shows "groupsHold (pushException l g) ign (exc @ [l])"
proof -
  let ?g = "ensureGroup (deviceImei l) g"
  have h: "groupsHold ?g ign exc" by (rule ensureGroup_hold [OF assms])
  have k: "deviceImei l \<in> fst ` set ?g" by (simp add: ensureGroup_keys)
  have keys: "fst ` set (pushException l g) = fst ` set ?g"
    by (force simp: pushException_def image_iff split: prod.splits)
  show ?thesis
    unfolding groupsHold_def keys
    using h k by (auto simp: groupsHold_def pushException_def split: if_splits)
qed

lemma foldl_ign_hold: "groupsHold (foldl (\<lambda>g l. pushIgnition l g) [] ign) ign []"
proof (induction ign rule: rev_induct)
  case Nil
  show ?case by (simp add: groupsHold_def)
next
  case (snoc l ign)
  from pushIgnition_hold [OF snoc.IH, of l] show ?case by simp
qed

lemma foldl_exc_hold:
  "groupsHold (foldl (\<lambda>g l. pushException l g) (foldl (\<lambda>g l. pushIgnition l g) [] ign) exc) ign exc"
proof (induction exc rule: rev_induct)
  case Nil
  show ?case by (simp add: foldl_ign_hold)
next
  case (snoc l exc)
  from pushException_hold [OF snoc.IH, of l] show ?case by simp
qed

lemma groupByDevice_hold: "groupsHold (groupByDevice ign exc) ign exc"
  unfolding groupByDevice_def by (rule foldl_exc_hold)


lemma voltageDrop_fields:
  "a \<in> set (voltageDropAnomalies L now k is) \<Longrightarrow> an_imei a = k \<and> an_type a = voltage_drop"
  by (auto simp: voltageDropAnomalies_def Let_def split: if_splits)

lemma restart_fields:
  "a \<in> set (restartAnomalies L now k es) \<Longrightarrow> an_imei a = k \<and> an_type a = frequent_restarts"
  by (auto simp: restartAnomalies_def Let_def split: if_splits)

lemma voltageDrop_declining:
  assumes "map voltageOf (filter truthyVoltage is) = [12.4, 12.2, 12.0, 11.8, 11.6]"
  shows "voltageDropAnomalies L now k is = []"
proof -
  have "length (map voltageOf (filter truthyVoltage is)) = 5" unfolding assms by simp
  then have "slice_last 5 (filter truthyVoltage is) = filter truthyVoltage is"
    by (simp add: slice_last_def)
  then show ?thesis
    by (simp add: voltageDropAnomalies_def assms reduce_sum_def)
qed

lemma trend_declining:
  assumes "map fst rs = [12.4, 12.2, 12.0, 11.8, 11.6]"
  shows "calculateVoltageTrend rs = - (1 / 5)"
proof -
  from assms obtain t1 t2 t3 t4 t5 where
    "rs = [(12.4, t1), (12.2, t2), (12.0, t3), (11.8, t4), (11.6, t5)]"
    by (auto simp: map_eq_Cons_conv)
  then show ?thesis
    by (simp add: calculateVoltageTrend_def)
qed

lemma group_declining_low:
  "groupByDevice (decliningLogs @ lowLogs) [] = [(''A'', (decliningLogs, [])), (''B'', (lowLogs, []))]"
  by (simp add: groupByDevice_def decliningLogs_def lowLogs_def pushIgnition_def ensureGroup_def ignitionLog_def)

lemma group_declining:
  "groupByDevice decliningLogs [] = [(''A'', (decliningLogs, []))]"
  by (simp add: groupByDevice_def decliningLogs_def pushIgnition_def ensureGroup_def ignitionLog_def)

lemma declining_voltages: "map voltageOf (filter truthyVoltage decliningLogs) = [12.4, 12.2, 12.0, 11.8, 11.6]"
  by (simp add: decliningLogs_def ignitionLog_def truthyVoltage_def voltageOf_def)

lemma low_anomaly: "map (\<lambda>a. (an_imei a, an_type a, an_severity a)) (detectAnomalies rejectingLib 0 (decliningLogs @ lowLogs) []) = [(''B'', voltage_drop, high)]"
proof -
  have a: "voltageDropAnomalies rejectingLib 0 ''A'' decliningLogs = []"
    by (rule voltageDrop_declining [OF declining_voltages])
  have b: "map (\<lambda>a. (an_imei a, an_type a, an_severity a)) (voltageDropAnomalies rejectingLib 0 ''B'' lowLogs) =
             [(''B'', voltage_drop, high)]"
    by (simp add: voltageDropAnomalies_def lowLogs_def ignitionLog_def truthyVoltage_def
        voltageOf_def slice_last_def reduce_sum_def Let_def)
  show ?thesis
    unfolding detectAnomalies_def group_declining_low
    by (simp add: restartAnomalies_def a b)
qed

text \<open>
  C6 (as the code has it).  For a device whose ignition logs carry exactly the
  voltage readings 12.4, 12.2, 12.0, 11.8 and 11.6, the least-squares slope
  fitted over the reading index is negative (it is -0.2), and \<open>detectAnomalies\<close>
  emits no \<open>voltage_drop\<close> anomaly for that device: the mean of the readings is
  12.0, which is not below the threshold of 11.5.
\<close>

theorem declining_voltage_no_anomaly:
  assumes "map voltageOf (filter truthyVoltage (filter (\<lambda>l. deviceImei l = imei) ignitionLogs)) =
             [12.4, 12.2, 12.0, 11.8, 11.6]"
  shows "calculateVoltageTrend
           (map (\<lambda>l. (voltageOf l, getSafeTimestamp L now (timestamp l)))
                (filter truthyVoltage (filter (\<lambda>l. deviceImei l = imei) ignitionLogs))) = - (1 / 5)
       \<and> filter (\<lambda>a. an_imei a = imei \<and> an_type a = voltage_drop)
            (detectAnomalies L now ignitionLogs exceptionLogs) = []"
proof
  show "calculateVoltageTrend
           (map (\<lambda>l. (voltageOf l, getSafeTimestamp L now (timestamp l)))
                (filter truthyVoltage (filter (\<lambda>l. deviceImei l = imei) ignitionLogs))) = - (1 / 5)"
    by (rule trend_declining) (simp only: map_map comp_def fst_conv assms)
next
  have "\<not> (an_imei a = imei \<and> an_type a = voltage_drop)"
    if a: "a \<in> set (detectAnomalies L now ignitionLogs exceptionLogs)" for a
  proof
    assume at: "an_imei a = imei \<and> an_type a = voltage_drop"
    from a obtain k "is" es where g: "(k, is, es) \<in> set (groupByDevice ignitionLogs exceptionLogs)"
      and "a \<in> set (voltageDropAnomalies L now k is) \<or> a \<in> set (restartAnomalies L now k es)"
      by (auto simp: detectAnomalies_def)
    then have v: "a \<in> set (voltageDropAnomalies L now k is)"
      using at restart_fields by fastforce
    then have "k = imei" using at voltageDrop_fields by fastforce
    moreover have "is = filter (\<lambda>l. deviceImei l = k) ignitionLogs"
      using g groupByDevice_hold [of ignitionLogs exceptionLogs] by (auto simp: groupsHold_def)
    ultimately have "voltageDropAnomalies L now k is = []"
      using voltageDrop_declining assms by simp
    then show False using v by simp
  qed
  then show "filter (\<lambda>a. an_imei a = imei \<and> an_type a = voltage_drop)
            (detectAnomalies L now ignitionLogs exceptionLogs) = []"
    by (simp add: filter_empty_conv)
qed


theorem declining_voltage_no_anomaly_witness:
  "map voltageOf (filter truthyVoltage (filter (\<lambda>l. deviceImei l = ''A'') (decliningLogs @ lowLogs))) =
       [12.4, 12.2, 12.0, 11.8, 11.6]
   \<and> calculateVoltageTrend
         (map (\<lambda>l. (voltageOf l, getSafeTimestamp rejectingLib 0 (timestamp l)))
              (filter truthyVoltage (filter (\<lambda>l. deviceImei l = ''A'') (decliningLogs @ lowLogs)))) < 0
   \<and> filter (\<lambda>a. an_imei a = ''A'' \<and> an_type a = voltage_drop)
          (detectAnomalies rejectingLib 0 (decliningLogs @ lowLogs) []) = []
   \<and> map (\<lambda>a. (an_imei a, an_type a, an_severity a))
          (detectAnomalies rejectingLib 0 (decliningLogs @ lowLogs) []) = [(''B'', voltage_drop, high)]"
proof -
  have h: "map voltageOf (filter truthyVoltage (filter (\<lambda>l. deviceImei l = ''A'') (decliningLogs @ lowLogs))) =
       [12.4, 12.2, 12.0, 11.8, 11.6]"
    by (simp add: decliningLogs_def lowLogs_def ignitionLog_def truthyVoltage_def voltageOf_def)
  from h low_anomaly declining_voltage_no_anomaly [OF h, of rejectingLib 0 "[]"]
  show ?thesis by simp
qed

text \<open>
  C6 as stated fails: on five logs of device A with exactly these readings
  \<open>detectAnomalies\<close> returns no anomaly at all.
\<close>

theorem declining_voltage_counterexample:
  "map deviceImei decliningLogs = [''A'', ''A'', ''A'', ''A'', ''A'']
   \<and> map voltage decliningLogs = [Some 12.4, Some 12.2, Some 12.0, Some 11.8, Some 11.6]
   \<and> detectAnomalies rejectingLib 0 decliningLogs [] = []"
proof -
  have "voltageDropAnomalies rejectingLib 0 ''A'' decliningLogs = []"
    by (rule voltageDrop_declining [OF declining_voltages])
  then have "detectAnomalies rejectingLib 0 decliningLogs [] = []"
    by (simp add: detectAnomalies_def group_declining restartAnomalies_def)
  then show ?thesis
    by (simp add: decliningLogs_def ignitionLog_def)
qed

section \<open>Theorems: a voltage of 0 reads as absent\<close>

lemma z_truthy: "truthyVoltage (zeroAsAbsent l) = truthyVoltage l"
  by (simp add: zeroAsAbsent_def truthyVoltage_def)

lemma z_id: "truthyVoltage l \<Longrightarrow> zeroAsAbsent l = l"
  by (auto simp: zeroAsAbsent_def truthyVoltage_def)

lemma z_imei: "deviceImei (zeroAsAbsent l) = deviceImei l"
  by (simp add: zeroAsAbsent_def)

lemma z_timestamp: "timestamp (zeroAsAbsent l) = timestamp l"
  by (simp add: zeroAsAbsent_def)

lemma filter_truthy_z: "filter truthyVoltage (map zeroAsAbsent xs) = filter truthyVoltage xs"
  by (induction xs) (simp_all add: z_truthy z_id)

lemma filter_imei_z:
  "filter (\<lambda>l. deviceImei l = k) (map zeroAsAbsent xs) = map zeroAsAbsent (filter (\<lambda>l. deviceImei l = k) xs)"
  by (induction xs) (simp_all add: z_imei)

lemma map_timestamp_z: "map timestamp (map zeroAsAbsent xs) = map timestamp xs"
  by (induction xs) (simp_all add: z_timestamp)

lemma timestamp_comp_z: "timestamp \<circ> zeroAsAbsent = timestamp"
  by (rule ext) (simp add: z_timestamp)

lemmas z_simps = filter_imei_z filter_truthy_z map_timestamp_z timestamp_comp_z length_map

lemma healthFactors_z:
  "healthFactors L now imei (map zeroAsAbsent ign) exc = healthFactors L now imei ign exc"
  unfolding healthFactors_def recentLogs_def Let_def z_simps by (rule refl)

lemma health_z:
  "calculateDeviceHealthScore L now imei (map zeroAsAbsent ign) exc =
   calculateDeviceHealthScore L now imei ign exc"
  unfolding calculateDeviceHealthScore_def healthFactors_z by (rule refl)

lemma perf_z:
  "calculateDevicePerformanceMetrics L now imei (map zeroAsAbsent ign) exc =
   calculateDevicePerformanceMetrics L now imei ign exc"
  unfolding calculateDevicePerformanceMetrics_def Let_def z_simps by (rule refl)

lemma map_of_groupsZero: "(map_of (groupsZeroAsAbsent g) k = None) = (map_of g k = None)"
  by (induction g) (auto simp: groupsZeroAsAbsent_def)

lemma groupsZero_append: "groupsZeroAsAbsent (g @ h) = groupsZeroAsAbsent g @ groupsZeroAsAbsent h"
  by (simp add: groupsZeroAsAbsent_def)

lemma ensureGroup_groupsZero: "ensureGroup k (groupsZeroAsAbsent g) = groupsZeroAsAbsent (ensureGroup k g)"
  by (simp add: ensureGroup_def map_of_groupsZero groupsZero_append) (simp add: groupsZeroAsAbsent_def)

lemma pushIgnition_groupsZero: "pushIgnition (zeroAsAbsent l) (groupsZeroAsAbsent g) = groupsZeroAsAbsent (pushIgnition l g)"
  unfolding pushIgnition_def z_imei ensureGroup_groupsZero
  by (induction "ensureGroup (deviceImei l) g") (auto simp: groupsZeroAsAbsent_def)

lemma pushException_groupsZero: "pushException l (groupsZeroAsAbsent g) = groupsZeroAsAbsent (pushException l g)"
  unfolding pushException_def ensureGroup_groupsZero
  by (induction "ensureGroup (deviceImei l) g") (auto simp: groupsZeroAsAbsent_def)

lemma foldl_ign_groupsZero:
  "foldl (\<lambda>g l. pushIgnition l g) (groupsZeroAsAbsent g) (map zeroAsAbsent ign) = groupsZeroAsAbsent (foldl (\<lambda>g l. pushIgnition l g) g ign)"
  by (induction ign arbitrary: g) (simp_all add: pushIgnition_groupsZero)

lemma foldl_exc_groupsZero:
  "foldl (\<lambda>g l. pushException l g) (groupsZeroAsAbsent g) exc = groupsZeroAsAbsent (foldl (\<lambda>g l. pushException l g) g exc)"
  by (induction exc arbitrary: g) (simp_all add: pushException_groupsZero)

lemma groupByDevice_z: "groupByDevice (map zeroAsAbsent ign) exc = groupsZeroAsAbsent (groupByDevice ign exc)"
proof -
  have "groupsZeroAsAbsent [] = []" by (simp add: groupsZeroAsAbsent_def)
  then show ?thesis
    unfolding groupByDevice_def using foldl_ign_groupsZero [of "[]" ign] foldl_exc_groupsZero by simp
qed

lemma voltageDrop_z: "voltageDropAnomalies L now k (map zeroAsAbsent is) = voltageDropAnomalies L now k is"
  unfolding voltageDropAnomalies_def filter_truthy_z by (rule refl)

lemma battery_z: "batteryAlerts L now k (map zeroAsAbsent is) = batteryAlerts L now k is"
  unfolding batteryAlerts_def filter_truthy_z by (rule refl)

lemma detect_z: "detectAnomalies L now (map zeroAsAbsent ign) exc = detectAnomalies L now ign exc"
  unfolding detectAnomalies_def groupByDevice_z groupsZeroAsAbsent_def map_map
  by (rule arg_cong [where f = concat], rule map_cong) (auto simp: voltageDrop_z)

lemma predict_z: "generatePredictiveAlerts L now (map zeroAsAbsent ign) exc = generatePredictiveAlerts L now ign exc"
  unfolding generatePredictiveAlerts_def groupByDevice_z groupsZeroAsAbsent_def map_map
  by (rule arg_cong [where f = concat], rule map_cong) (auto simp: battery_z)

text \<open>
  C10.  A voltage reading of exactly 0 is treated as an absent reading: two
  collections of ignition logs that agree once every voltage 0 is read as
  absent (so they differ only by replacing absent voltages with 0 or the other
  way round) give the same health score with the same battery-health factor,
  the same performance metrics with the same average voltage, the same
  anomalies and the same predictive alerts.
\<close>

theorem zero_voltage_is_absent:
  assumes "map zeroAsAbsent ignitionLogs = map zeroAsAbsent ignitionLogs'"
  shows "calculateDeviceHealthScore L now imei ignitionLogs exceptionLogs =
           calculateDeviceHealthScore L now imei ignitionLogs' exceptionLogs
       \<and> calculateDevicePerformanceMetrics L now imei ignitionLogs exceptionLogs =
           calculateDevicePerformanceMetrics L now imei ignitionLogs' exceptionLogs
       \<and> detectAnomalies L now ignitionLogs exceptionLogs =
           detectAnomalies L now ignitionLogs' exceptionLogs
       \<and> generatePredictiveAlerts L now ignitionLogs exceptionLogs =
           generatePredictiveAlerts L now ignitionLogs' exceptionLogs"
proof (intro conjI)
  show "calculateDeviceHealthScore L now imei ignitionLogs exceptionLogs =
           calculateDeviceHealthScore L now imei ignitionLogs' exceptionLogs"
    using health_z [of L now imei ignitionLogs exceptionLogs]
      health_z [of L now imei ignitionLogs' exceptionLogs] assms by simp
  show "calculateDevicePerformanceMetrics L now imei ignitionLogs exceptionLogs =
           calculateDevicePerformanceMetrics L now imei ignitionLogs' exceptionLogs"
    using perf_z [of L now imei ignitionLogs exceptionLogs]
      perf_z [of L now imei ignitionLogs' exceptionLogs] assms by simp
  show "detectAnomalies L now ignitionLogs exceptionLogs =
           detectAnomalies L now ignitionLogs' exceptionLogs"
    using detect_z [of L now ignitionLogs exceptionLogs]
      detect_z [of L now ignitionLogs' exceptionLogs] assms by simp
  show "generatePredictiveAlerts L now ignitionLogs exceptionLogs =
           generatePredictiveAlerts L now ignitionLogs' exceptionLogs"
    using predict_z [of L now ignitionLogs exceptionLogs]
      predict_z [of L now ignitionLogs' exceptionLogs] assms by simp
qed

theorem zero_voltage_is_absent_witness:
  "map zeroAsAbsent (ignitionLog ''0'' ''B'' Undefined None # lowLogs) =
     map zeroAsAbsent (ignitionLog ''0'' ''B'' Undefined (Some 0) # lowLogs)
   \<and> calculateDeviceHealthScore rejectingLib 0 ''B'' (ignitionLog ''0'' ''B'' Undefined None # lowLogs) [] =
       calculateDeviceHealthScore rejectingLib 0 ''B'' (ignitionLog ''0'' ''B'' Undefined (Some 0) # lowLogs) []
   \<and> detectAnomalies rejectingLib 0 (ignitionLog ''0'' ''B'' Undefined None # lowLogs) [] =
       detectAnomalies rejectingLib 0 (ignitionLog ''0'' ''B'' Undefined (Some 0) # lowLogs) []"
proof -
  have h: "map zeroAsAbsent (ignitionLog ''0'' ''B'' Undefined None # lowLogs) =
     map zeroAsAbsent (ignitionLog ''0'' ''B'' Undefined (Some 0) # lowLogs)"
    by (simp add: zeroAsAbsent_def ignitionLog_def)
  from h zero_voltage_is_absent [OF h, of rejectingLib 0 "''B''" "[]"]
  show ?thesis by blast
qed

end
